theory Spec2Isabelle
  imports Main "HOL-Library.Word"
begin

unbundle bit_operations_syntax

section \<open>A shallow embedding of assembler.cpp\<close>

text \<open>
  The assembler reads a list of source lines, builds the label table (\<open>ParseLabels\<close>),
  encodes every instruction line (\<open>ParseInstructions\<close>), appends the data segment
  (\<open>AddData\<close>) and prints every word as eight hexadecimal digits (\<open>Display\<close>,
  \<open>ParseHex\<close>).

  Types of the C++ program, for a platform with a 64-bit \<open>size_t\<close> and a 32-bit \<open>int\<close>:
  \<open>size_t\<close> and \<open>unsigned long long\<close> are \<open>64 word\<close>, \<open>int\<close> is \<open>32 word\<close> read with \<open>sint\<close>,
  \<open>std::bitset<N>\<close> is \<open>N word\<close>, \<open>std::string\<close> is \<open>string\<close>,
  \<open>std::map<std::string, size_t>\<close> is a partial function and
  \<open>std::map<size_t, std::bitset<32>>\<close> is an association list kept in ascending key order.
\<close>

subsection \<open>Errors\<close>

text \<open>
  Every way a run can end without reaching the end of \<open>main\<close>:
  \<^item> \<open>InvalidArgument\<close>: \<open>std::invalid_argument\<close>, thrown by \<open>std::stoi\<close> on a string with
    no number in front and by the string constructor of \<open>std::bitset\<close>; nothing catches it;
  \<^item> \<open>OutOfRange\<close>: \<open>std::out_of_range\<close>, thrown by \<open>std::stoi\<close> on a number that does not
    fit \<open>int\<close>; nothing catches it;
  \<^item> \<open>InvalidRegister s\<close>: \<open>GetReg\<close> printed \<open>Invalid register: s\<close> and called
    \<open>exit(EXIT_FAILURE)\<close>;
  \<^item> \<open>Undefined\<close>: the program did something C++ gives no meaning to (it read through
    the past-the-end iterator of a map or of the tokenizer, advanced the latter, or
    indexed a string beyond its terminating null). The code raises no error of its own
    there; what a build then does is outside the language.
\<close>

datatype error = InvalidArgument | OutOfRange | InvalidRegister string | Undefined

fun bind :: "error + 'a \<Rightarrow> ('a \<Rightarrow> error + 'b) \<Rightarrow> error + 'b" where
  "bind (Inl e) f = Inl e"
| "bind (Inr v) f = f v"

subsection \<open>Bit sets and bit strings\<close>

type_synonym size_t = "64 word"
type_synonym cint = "32 word"

text \<open>\<open>std::bitset<N>::to_string\<close>: the bits as characters, most significant first.\<close>

definition to_string :: "'a::len word \<Rightarrow> string" where
  "to_string w = map (\<lambda>i. if bit w i then CHR ''1'' else CHR ''0'') (rev [0..<LENGTH('a)])"

text \<open>
  \<open>std::bitset<N> b(v)\<close> takes an \<open>unsigned long long\<close> and keeps its low \<open>N\<close> bits.
  An \<open>int\<close> argument is converted first, which extends its sign to 64 bits.
\<close>

definition bitset_of_size_t :: "size_t \<Rightarrow> 'a::len word" where
  "bitset_of_size_t v = ucast v"

definition bitset_of_int :: "cint \<Rightarrow> 'a::len word" where
  "bitset_of_int v = bitset_of_size_t (scast v :: size_t)"

text \<open>
  \<open>std::bitset<32> b(str)\<close>: a character other than \<open>0\<close> and \<open>1\<close> anywhere in the string
  throws \<open>std::invalid_argument\<close>; the first 32 characters (all of a shorter string) are
  the bits, the last of them bit 0.
\<close>

definition binary :: "string \<Rightarrow> bool" where
  "binary cs = list_all (\<lambda>c. c = CHR ''0'' \<or> c = CHR ''1'') cs"

definition bits_val :: "string \<Rightarrow> nat" where
  "bits_val cs = foldl (\<lambda>acc c. 2 * acc + (if c = CHR ''1'' then 1 else 0)) 0 cs"

definition bitset32_of_string :: "string \<Rightarrow> error + 32 word" where
  "bitset32_of_string str =
     (if binary str then Inr (of_nat (bits_val (take 32 str))) else Inl InvalidArgument)"

subsection \<open>\<open>std::stoi\<close>\<close>

definition isspace :: "char \<Rightarrow> bool" where
  "isspace c = (c = CHR '' '' \<or> c = CHR 0x09 \<or> c = CHR 0x0A \<or> c = CHR 0x0B
                \<or> c = CHR 0x0C \<or> c = CHR 0x0D)"

definition isdigit :: "char \<Rightarrow> bool" where
  "isdigit c = (48 \<le> (of_char c :: nat) \<and> (of_char c :: nat) \<le> 57)"

definition digit_val :: "char \<Rightarrow> int" where
  "digit_val c = int (of_char c) - 48"

definition dec_val :: "string \<Rightarrow> int" where
  "dec_val ds = foldl (\<lambda>acc c. 10 * acc + digit_val c) 0 ds"

text \<open>
  \<open>std::stoi(s)\<close> in base 10: white space is skipped, one sign is accepted, the longest
  run of digits is the number and what follows it is ignored.
\<close>

definition skip_sign :: "string \<Rightarrow> string" where
  "skip_sign s =
     (case s of
        [] \<Rightarrow> []
      | c # cs \<Rightarrow> if c = CHR ''-'' \<or> c = CHR ''+'' then cs else s)"

definition negative :: "string \<Rightarrow> bool" where
  "negative s = (case dropWhile isspace s of [] \<Rightarrow> False | c # _ \<Rightarrow> c = CHR ''-'')"

definition leading_digits :: "string \<Rightarrow> string" where
  "leading_digits s = takeWhile isdigit (skip_sign (dropWhile isspace s))"

definition stoi_val :: "string \<Rightarrow> int" where
  "stoi_val s = (if negative s then - dec_val (leading_digits s) else dec_val (leading_digits s))"

definition stoi :: "string \<Rightarrow> error + cint" where
  "stoi s =
     (if leading_digits s = [] then Inl InvalidArgument
      else if stoi_val s < - (2 ^ 31) \<or> 2 ^ 31 \<le> stoi_val s then Inl OutOfRange
      else Inr (word_of_int (stoi_val s)))"

subsection \<open>The label table and \<open>isLabel\<close>\<close>

type_synonym label_map = "string \<Rightarrow> size_t option"

text \<open>\<open>labels.emplace(k, v)\<close> leaves a key that is already bound as it is.\<close>

definition emplace_label :: "string \<Rightarrow> size_t \<Rightarrow> label_map \<Rightarrow> label_map" where
  "emplace_label k v labels = (case labels k of None \<Rightarrow> labels(k \<mapsto> v) | Some _ \<Rightarrow> labels)"

text \<open>\<open>labels.find(s)->second\<close>: reading through \<open>end()\<close> is undefined.\<close>

definition find_second :: "label_map \<Rightarrow> string \<Rightarrow> error + size_t" where
  "find_second labels s = (case labels s of None \<Rightarrow> Inl Undefined | Some v \<Rightarrow> Inr v)"

definition isLabel :: "string \<Rightarrow> label_map \<Rightarrow> bool" where
  "isLabel s labels =
     (let label = (CHR '':'' \<in> set s);
          label = (if CHR ''.'' \<in> set s then True else label)
      in if \<not> label then labels s \<noteq> None else label)"

subsection \<open>Operand resolvers\<close>

definition GetAddress :: "string \<Rightarrow> label_map \<Rightarrow> error + string" where
  "GetAddress s labels =
     bind (find_second labels s) (\<lambda>loc. Inr (to_string (bitset_of_size_t loc :: 26 word)))"

text \<open>
  \<open>GetBranch\<close>: \<open>++$pc\<close> on a \<open>size_t\<close>; the target is cast to \<open>int\<close>; \<open>loc - $pc\<close>
  converts \<open>loc\<close> back to \<open>size_t\<close>, subtracts there and the assignment to \<open>loc\<close>
  truncates to \<open>int\<close> again; \<open>std::bitset<16>\<close> keeps the low 16 bits.
\<close>

definition GetBranch :: "size_t \<Rightarrow> string \<Rightarrow> label_map \<Rightarrow> error + string" where
  "GetBranch pc s labels =
     (let pc1 = pc + 1 in
      bind (find_second labels s) (\<lambda>t.
        let loc = (ucast t :: cint);
            loc = (ucast ((scast loc :: size_t) - pc1) :: cint)
        in Inr (to_string (bitset_of_int loc :: 16 word))))"

text \<open>
  \<open>s[i]\<close> on a \<open>std::string\<close>: the character, the terminating null at \<open>i = size()\<close>,
  undefined beyond.
\<close>

definition char_at :: "string \<Rightarrow> nat \<Rightarrow> error + char" where
  "char_at s i =
     (if i < length s then Inr (s ! i)
      else if i = length s then Inr (CHR 0x00)
      else Inl Undefined)"

text \<open>\<open>std::stoi(std::string(1, s[2]))\<close>.\<close>

definition digit_at2 :: "string \<Rightarrow> error + cint" where
  "digit_at2 s = bind (char_at s 2) (\<lambda>c. stoi [c])"

definition GetReg :: "string \<Rightarrow> error + string" where
  "GetReg s =
     bind (char_at s 1) (\<lambda>c1.
       if c1 = CHR ''z'' then Inr (to_string (bitset_of_int 0 :: 5 word))
       else if c1 = CHR ''a'' then
         bind (digit_at2 s) (\<lambda>i.
           if char_at s 2 = Inr (CHR ''t'') then Inr (to_string (bitset_of_int 1 :: 5 word))
           else if sint i < 4 then Inr (to_string (bitset_of_int (i + 4) :: 5 word))
           else Inr ''11111'')
       else if c1 = CHR ''t'' then
         bind (digit_at2 s) (\<lambda>i.
           if sint i < 8 then Inr (to_string (bitset_of_int (i + 8) :: 5 word))
           else if i = 8 \<or> i = 9 then Inr (to_string (bitset_of_int (i + 16) :: 5 word))
           else Inr ''11111'')
       else if c1 = CHR ''v'' then
         bind (digit_at2 s) (\<lambda>i. Inr (to_string (bitset_of_int (i + 2) :: 5 word)))
       else if c1 = CHR ''s'' then
         bind (digit_at2 s) (\<lambda>i.
           if char_at s 2 = Inr (CHR ''p'') then Inr (to_string (bitset_of_int 29 :: 5 word))
           else if sint i < 8 then Inr (to_string (bitset_of_int (i + 16) :: 5 word))
           else Inr ''11111'')
       else if c1 = CHR ''k'' then
         bind (digit_at2 s) (\<lambda>i. Inr (to_string (bitset_of_int (i + 6) :: 5 word)))
       else if c1 = CHR ''g'' then Inr (to_string (bitset_of_int 28 :: 5 word))
       else if c1 = CHR ''f'' then Inr (to_string (bitset_of_int 30 :: 5 word))
       else if c1 = CHR ''r'' then Inr (to_string (bitset_of_int 31 :: 5 word))
       else Inl (InvalidRegister s))"

text \<open>
  \<open>GetOffset\<close>: a key of the table is a label, whose offset from \<open>.data\<close> is computed
  in \<open>size_t\<close> and stored in an \<open>int\<close>; anything else is handed to \<open>std::stoi\<close>.
\<close>

definition GetOffset :: "string \<Rightarrow> label_map \<Rightarrow> error + string" where
  "GetOffset s labels =
     (case labels s of
        Some i \<Rightarrow>
          bind (find_second labels ''.data'') (\<lambda>t.
            let o1 = (ucast (i - t) :: cint)
            in Inr (to_string (bitset_of_int o1 :: 16 word)))
      | None \<Rightarrow>
          bind (stoi s) (\<lambda>v.
            let o1 = (scast v :: size_t)
            in Inr (to_string (bitset_of_size_t o1 :: 16 word))))"

subsection \<open>The hexadecimal formatter\<close>

definition hex_of_test :: "string \<Rightarrow> string" where
  "hex_of_test test =
     (if test = ''0000'' then ''0''
      else if test = ''0001'' then ''1''
      else if test = ''0010'' then ''2''
      else if test = ''0011'' then ''3''
      else if test = ''0100'' then ''4''
      else if test = ''0101'' then ''5''
      else if test = ''0110'' then ''6''
      else if test = ''0111'' then ''7''
      else if test = ''1000'' then ''8''
      else if test = ''1001'' then ''9''
      else if test = ''1010'' then ''a''
      else if test = ''1011'' then ''b''
      else if test = ''1100'' then ''c''
      else if test = ''1101'' then ''d''
      else if test = ''1110'' then ''e''
      else if test = ''1111'' then ''f''
      else [])"

text \<open>
  The loop of \<open>ParseHex\<close> visits \<open>i = 0, 4, 8, ...\<close> below the length of the bit string
  (always 32) and reads the four characters from \<open>i\<close> on.
\<close>

definition ParseHex :: "32 word \<Rightarrow> string" where
  "ParseHex bits =
     (let bitstring = to_string bits
      in concat (map (\<lambda>i. hex_of_test (map (\<lambda>j. bitstring ! j) [i..<i + 4]))
                     (filter (\<lambda>i. i mod 4 = 0) [0..<length bitstring])))"

type_synonym word_map = "(size_t \<times> 32 word) list"

text \<open>\<open>Display\<close> writes a newline, then every word of the map in key order on its own line.\<close>

definition Display :: "word_map \<Rightarrow> string" where
  "Display bits = CHR 0x0A # concat (map (\<lambda>(a, w). ParseHex w @ [CHR 0x0A]) bits)"

subsection \<open>The tokenizer\<close>

text \<open>
  \<open>boost::tokenizer\<close> with a \<open>char_separator\<close> of dropped delimiters: the maximal runs
  of characters that are not delimiters, in order; there is no empty token.
\<close>

fun split_tok :: "string \<Rightarrow> string \<Rightarrow> string \<Rightarrow> string list" where
  "split_tok delim cur [] = (if cur = [] then [] else [cur])"
| "split_tok delim cur (c # cs) =
     (if c \<in> set delim
      then (if cur = [] then [] else [cur]) @ split_tok delim [] cs
      else split_tok delim (cur @ [c]) cs)"

definition tokenizer :: "string \<Rightarrow> string \<Rightarrow> string list" where
  "tokenizer s delim = split_tok delim [] s"

text \<open>\<open>*(++iter)\<close> for the \<open>n\<close>-th time: the token at index \<open>n\<close>, undefined past the end.\<close>

definition next_tok :: "string list \<Rightarrow> nat \<Rightarrow> error + string" where
  "next_tok toks n = (if n < length toks then Inr (toks ! n) else Inl Undefined)"

subsection \<open>Pass 1: \<open>ParseLabels\<close>\<close>

record pl_state =
  labels :: label_map
  numLabels :: size_t
  dataLn :: size_t
  DATA :: bool
  distData :: size_t

text \<open>A loop that runs \<open>k\<close> times and adds 4 to \<open>distData\<close> each time.\<close>

fun add4 :: "nat \<Rightarrow> size_t \<Rightarrow> size_t" where
  "add4 0 d = d"
| "add4 (Suc k) d = add4 k (d + 4)"

text \<open>The body of the loop of \<open>ParseLabels\<close> at line index \<open>i\<close>.\<close>

definition ParseLabels_line :: "nat \<Rightarrow> pl_state \<Rightarrow> string \<Rightarrow> error + pl_state" where
  "ParseLabels_line i st s =
     (if isLabel s (labels st) then
        (case tokenizer s '': ,'' of
           [] \<Rightarrow> Inl Undefined
         | t # ts \<Rightarrow>
             if t = ''.text'' then Inr st
             else if DATA st then
               (let st1 = st\<lparr>labels := emplace_label t (dataLn st + distData st) (labels st)\<rparr>
                in case ts of
                     [] \<Rightarrow> Inl Undefined
                   | u # us \<Rightarrow>
                       if u = ''.word'' then
                         Inr (st1\<lparr>distData := add4 (length us) (distData st1)\<rparr>)
                       else if u = ''.space'' then
                         (case us of
                            [] \<Rightarrow> Inl Undefined
                          | n # _ \<Rightarrow>
                              bind (stoi n) (\<lambda>stop.
                                Inr (st1\<lparr>distData := add4 (nat (sint stop)) (distData st1)\<rparr>)))
                       else Inr st1)
             else
               (let v = (of_nat i - numLabels st) - 1;
                    st1 = (if t = ''.data'' then st\<lparr>DATA := True, dataLn := v\<rparr> else st)
                in Inr (st1\<lparr>labels := emplace_label t v (labels st1),
                              numLabels := numLabels st1 + 1\<rparr>)))
      else Inr st)"

fun ParseLabels_loop :: "nat \<Rightarrow> pl_state \<Rightarrow> string list \<Rightarrow> error + pl_state" where
  "ParseLabels_loop i st [] = Inr st"
| "ParseLabels_loop i st (s # src) =
     bind (ParseLabels_line i st s) (\<lambda>st'. ParseLabels_loop (Suc i) st' src)"

definition pl_init :: "label_map \<Rightarrow> pl_state" where
  "pl_init m = \<lparr>labels = m, numLabels = 0, dataLn = 0, DATA = False, distData = 0\<rparr>"

definition ParseLabels :: "string list \<Rightarrow> label_map \<Rightarrow> error + label_map" where
  "ParseLabels src m = bind (ParseLabels_loop 0 (pl_init m) src) (\<lambda>st. Inr (labels st))"

subsection \<open>The word map\<close>

text \<open>\<open>instructions.emplace(k, b)\<close> on the ordered map: a key already there keeps its word.\<close>

fun emplace :: "size_t \<Rightarrow> 32 word \<Rightarrow> word_map \<Rightarrow> word_map" where
  "emplace k b [] = [(k, b)]"
| "emplace k b ((k', b') # xs) =
     (if k < k' then (k, b) # (k', b') # xs
      else if k = k' then (k', b') # xs
      else (k', b') # emplace k b xs)"

subsection \<open>Pass 2: the loop of \<open>ParseInstructions\<close>\<close>

record enc_state =
  instructions :: word_map
  lineNum :: size_t
  out :: string

text \<open>\<open>std::bitset<32> b(bin); instructions.emplace(lineNum, b); ++lineNum;\<close>\<close>

definition emit :: "enc_state \<Rightarrow> string \<Rightarrow> error + enc_state" where
  "emit st bin =
     bind (bitset32_of_string bin) (\<lambda>b.
       Inr (st\<lparr>instructions := emplace (lineNum st) b (instructions st),
                lineNum := lineNum st + 1\<rparr>))"

text \<open>\<open>std::cout << n\<close> for an unsigned number.\<close>

fun dec_string :: "nat \<Rightarrow> string" where
  "dec_string n =
     (if n < 10 then [char_of (48 + n)]
      else dec_string (n div 10) @ [char_of (48 + n mod 10)])"

text \<open>
  The branches of the dispatch that share an operand layout. The source spells each of
  them out once per mnemonic; the order of the reads, of the resolver calls and of the
  fields is the source's.
\<close>

definition enc_jump :: "label_map \<Rightarrow> enc_state \<Rightarrow> string list \<Rightarrow> error + enc_state" where
  "enc_jump lbls st toks =
     bind (next_tok toks 1) (\<lambda>a.
     bind (GetAddress a lbls) (\<lambda>addr.
       emit st (''000010'' @ addr)))"

definition enc_addiu :: "enc_state \<Rightarrow> string list \<Rightarrow> error + enc_state" where
  "enc_addiu st toks =
     bind (next_tok toks 1) (\<lambda>rt.
     bind (next_tok toks 2) (\<lambda>rs.
     bind (next_tok toks 3) (\<lambda>imm.
     bind (GetReg rs) (\<lambda>rs_bits.
     bind (GetReg rt) (\<lambda>rt_bits.
     bind (stoi imm) (\<lambda>v.
       emit st (''001001'' @ rs_bits @ rt_bits @ to_string (bitset_of_int v :: 16 word))))))))"

definition enc_reg3 :: "string \<Rightarrow> enc_state \<Rightarrow> string list \<Rightarrow> error + enc_state" where
  "enc_reg3 tail st toks =
     bind (next_tok toks 1) (\<lambda>rd.
     bind (next_tok toks 2) (\<lambda>rs.
     bind (next_tok toks 3) (\<lambda>rt.
     bind (GetReg rs) (\<lambda>rs_bits.
     bind (GetReg rt) (\<lambda>rt_bits.
     bind (GetReg rd) (\<lambda>rd_bits.
       emit st (''000000'' @ rs_bits @ rt_bits @ rd_bits @ tail)))))))"

definition enc_branch ::
  "string \<Rightarrow> label_map \<Rightarrow> enc_state \<Rightarrow> string list \<Rightarrow> error + enc_state" where
  "enc_branch opcode lbls st toks =
     bind (next_tok toks 1) (\<lambda>rs.
     bind (next_tok toks 2) (\<lambda>rt.
     bind (next_tok toks 3) (\<lambda>imm.
     bind (GetReg rs) (\<lambda>rs_bits.
     bind (GetReg rt) (\<lambda>rt_bits.
     bind (GetBranch (lineNum st) imm lbls) (\<lambda>off.
       emit st (opcode @ rs_bits @ rt_bits @ off)))))))"

definition enc_reg2 :: "string \<Rightarrow> enc_state \<Rightarrow> string list \<Rightarrow> error + enc_state" where
  "enc_reg2 tail st toks =
     bind (next_tok toks 1) (\<lambda>rs.
     bind (next_tok toks 2) (\<lambda>rt.
     bind (GetReg rs) (\<lambda>rs_bits.
     bind (GetReg rt) (\<lambda>rt_bits.
       emit st (''000000'' @ rs_bits @ rt_bits @ tail)))))"

definition enc_mem ::
  "string \<Rightarrow> label_map \<Rightarrow> enc_state \<Rightarrow> string list \<Rightarrow> error + enc_state" where
  "enc_mem opcode lbls st toks =
     bind (next_tok toks 1) (\<lambda>rt.
     bind (next_tok toks 2) (\<lambda>imm.
     bind (next_tok toks 3) (\<lambda>rs.
     bind (GetReg rs) (\<lambda>rs_bits.
     bind (GetReg rt) (\<lambda>rt_bits.
     bind (GetOffset imm lbls) (\<lambda>off.
       emit st (opcode @ rs_bits @ rt_bits @ off)))))))"

definition enc_mf :: "string \<Rightarrow> enc_state \<Rightarrow> string list \<Rightarrow> error + enc_state" where
  "enc_mf tail st toks =
     bind (next_tok toks 1) (\<lambda>rd.
     bind (GetReg rd) (\<lambda>rd_bits.
       emit st (''0000000000000000'' @ rd_bits @ tail)))"

definition bad_instruction :: "enc_state \<Rightarrow> enc_state" where
  "bad_instruction st =
     st\<lparr>out := out st @ ''Error! Bad instruction on line '' @ dec_string (unat (lineNum st))
                 @ [CHR 0x0A],
        lineNum := lineNum st + 1\<rparr>"

text \<open>The body of the loop of \<open>ParseInstructions\<close> for the line \<open>s\<close>.\<close>

definition ParseInstructions_line :: "label_map \<Rightarrow> enc_state \<Rightarrow> string \<Rightarrow> error + enc_state" where
  "ParseInstructions_line lbls st s =
     (if \<not> isLabel s lbls then
        (let toks = tokenizer s '', ()'' in
         if toks \<noteq> [] then
           (if hd toks = ''syscall'' then emit st ''1100''
            else if hd s = CHR ''j'' then enc_jump lbls st toks
            else if hd toks = ''addiu'' then enc_addiu st toks
            else if hd toks = ''addu'' then enc_reg3 (''00000'' @ ''100001'') st toks
            else if hd toks = ''and'' then enc_reg3 (''00000'' @ ''100100'') st toks
            else if hd toks = ''beq'' then enc_branch ''000100'' lbls st toks
            else if hd toks = ''bne'' then enc_branch ''000101'' lbls st toks
            else if hd toks = ''div'' then enc_reg2 (''0000000000'' @ ''011010'') st toks
            else if hd toks = ''lw'' then enc_mem ''100011'' lbls st toks
            else if hd toks = ''mfhi'' then enc_mf ''00000010000'' st toks
            else if hd toks = ''mflo'' then enc_mf ''00000010010'' st toks
            else if hd toks = ''mult'' then enc_reg2 ''0000000000011000'' st toks
            else if hd toks = ''or'' then enc_reg3 ''00000100101'' st toks
            else if hd toks = ''slt'' then enc_reg3 ''00000101010'' st toks
            else if hd toks = ''subu'' then enc_reg3 ''00000100011'' st toks
            else if hd toks = ''sw'' then enc_mem ''101011'' lbls st toks
            else Inr (bad_instruction st))
         else Inr st)
      else Inr st)"

fun ParseInstructions_loop ::
  "label_map \<Rightarrow> enc_state \<Rightarrow> string list \<Rightarrow> error + enc_state" where
  "ParseInstructions_loop lbls st [] = Inr st"
| "ParseInstructions_loop lbls st (s # src) =
     bind (ParseInstructions_line lbls st s) (\<lambda>st'. ParseInstructions_loop lbls st' src)"

subsection \<open>\<open>AddData\<close>\<close>

record ad_state =
  ad_instructions :: word_map
  ad_lineNum :: size_t
  ad_DATA :: bool

text \<open>\<open>instructions.emplace(lineNum, b); ++lineNum;\<close>\<close>

definition ad_emit :: "32 word \<Rightarrow> ad_state \<Rightarrow> ad_state" where
  "ad_emit b st =
     st\<lparr>ad_instructions := emplace (ad_lineNum st) b (ad_instructions st),
        ad_lineNum := ad_lineNum st + 1\<rparr>"

text \<open>The loops of \<open>.space\<close>: \<open>k\<close> zero words.\<close>

fun ad_space :: "nat \<Rightarrow> ad_state \<Rightarrow> ad_state" where
  "ad_space 0 st = st"
| "ad_space (Suc k) st = ad_space k (ad_emit 0 st)"

text \<open>The loop of the first \<open>.word\<close> branch: every remaining token is a word.\<close>

fun ad_words :: "string list \<Rightarrow> ad_state \<Rightarrow> error + ad_state" where
  "ad_words [] st = Inr st"
| "ad_words (t # ts) st = bind (stoi t) (\<lambda>v. ad_words ts (ad_emit (bitset_of_int v) st))"

text \<open>
  The \<open>while\<close> loop over the tokens of one line; the argument is what is left from
  \<open>iter\<close> on. A branch that leaves \<open>iter\<close> at the end and then runs the \<open>++iter\<close> closing
  the loop body is undefined, as is reading \<open>*iter\<close> there.
\<close>

fun AddData_tokens :: "label_map \<Rightarrow> size_t \<Rightarrow> ad_state \<Rightarrow> string list \<Rightarrow> error + ad_state" where
  "AddData_tokens lbls dataLoc st [] = Inr st"
| "AddData_tokens lbls dataLoc st (t # ts) =
     (if t = ''.data'' then AddData_tokens lbls dataLoc (st\<lparr>ad_DATA := True\<rparr>) ts
      else if t = ''.text'' then AddData_tokens lbls dataLoc st ts
      else if \<not> isLabel t lbls then
        (if t = ''.word'' then bind (ad_words ts st) (\<lambda>_. Inl Undefined)
         else if t = ''.space'' then
           (case ts of
              [] \<Rightarrow> Inl Undefined
            | n # ns \<Rightarrow>
                bind (stoi n) (\<lambda>numBytes.
                  AddData_tokens lbls dataLoc (ad_space (nat (sint numBytes)) st) ns))
         else if ad_DATA st then
           bind (stoi t) (\<lambda>v. AddData_tokens lbls dataLoc (ad_emit (bitset_of_int v) st) ts)
         else AddData_tokens lbls dataLoc st ts)
      else
        bind (find_second lbls t) (\<lambda>a.
          if a \<ge> dataLoc then
            (case ts of
               [] \<Rightarrow> Inl Undefined
             | u # us \<Rightarrow>
                 if u = ''.word'' then
                   (case us of
                      [] \<Rightarrow> Inl Undefined
                    | v # vs \<Rightarrow>
                        bind (stoi v) (\<lambda>x.
                          AddData_tokens lbls dataLoc (ad_emit (bitset_of_int x) st) vs))
                 else if u = ''.space'' then
                   (case us of
                      [] \<Rightarrow> Inl Undefined
                    | n # ns \<Rightarrow>
                        bind (stoi n) (\<lambda>numBytes.
                          AddData_tokens lbls dataLoc (ad_space (nat (sint numBytes)) st) ns))
                 else AddData_tokens lbls dataLoc st us)
          else AddData_tokens lbls dataLoc st ts))"

fun AddData_loop :: "label_map \<Rightarrow> size_t \<Rightarrow> ad_state \<Rightarrow> string list \<Rightarrow> error + ad_state" where
  "AddData_loop lbls dataLoc st [] = Inr st"
| "AddData_loop lbls dataLoc st (s # src) =
     bind (AddData_tokens lbls dataLoc st (tokenizer s '': ,''))
          (\<lambda>st'. AddData_loop lbls dataLoc st' src)"

definition AddData :: "word_map \<Rightarrow> label_map \<Rightarrow> string list \<Rightarrow> error + word_map" where
  "AddData ins lbls src =
     bind (find_second lbls ''.data'') (\<lambda>dataLoc.
     bind (AddData_loop lbls dataLoc
             \<lparr>ad_instructions = ins, ad_lineNum = of_nat (length ins) + 1, ad_DATA = False\<rparr>
             src)
          (\<lambda>st. Inr (ad_instructions st)))"

subsection \<open>\<open>ParseInstructions\<close>\<close>

text \<open>
  \<open>ParseInstructions\<close> after the file is read into \<open>sourceCode\<close>: the label table, the
  instruction words, the data words. \<open>WordStream\<close> is the state in which \<open>Display\<close> is
  called, \<open>ParseInstructions\<close> is what the run writes to standard output.
\<close>

definition WordStream :: "string list \<Rightarrow> error + enc_state" where
  "WordStream sourceCode =
     bind (ParseLabels sourceCode Map.empty) (\<lambda>lbls.
     bind (ParseInstructions_loop lbls \<lparr>instructions = [], lineNum = 0, out = []\<rparr> sourceCode)
       (\<lambda>st.
     bind (AddData (instructions st) lbls sourceCode) (\<lambda>ins.
       Inr (st\<lparr>instructions := ins\<rparr>))))"

definition ParseInstructions :: "string list \<Rightarrow> error + string" where
  "ParseInstructions sourceCode =
     bind (WordStream sourceCode) (\<lambda>st. Inr (out st @ Display (instructions st)))"

section \<open>Notions used to state the properties\<close>

text \<open>The \<open>k\<close>-th group of four bits of a word, counted from the least significant.\<close>

definition nibble :: "32 word \<Rightarrow> nat \<Rightarrow> nat" where
  "nibble w k = (unat w div 16 ^ k) mod 16"

definition hex_char :: "nat \<Rightarrow> char" where
  "hex_char n = ''0123456789abcdef'' ! n"

definition hex8 :: "32 word \<Rightarrow> string" where
  "hex8 w = map (\<lambda>k. hex_char (nibble w k)) [7, 6, 5, 4, 3, 2, 1, 0]"

definition bit_char :: "bool \<Rightarrow> char" where
  "bit_char b = (if b then CHR ''1'' else CHR ''0'')"

text \<open>The invariant of \<open>std::map\<close>: the keys ascend strictly.\<close>

definition ordered_map :: "word_map \<Rightarrow> bool" where
  "ordered_map bits = sorted_wrt (<) (map fst bits)"

text \<open>The mnemonics the dispatch of \<open>ParseInstructions\<close> compares the first token with.\<close>

definition mnemonics :: "string list" where
  "mnemonics = [''syscall'', ''addiu'', ''addu'', ''and'', ''beq'', ''bne'', ''div'', ''lw'',
                ''mfhi'', ''mflo'', ''mult'', ''or'', ''slt'', ''subu'', ''sw'']"

text \<open>
  A decimal literal: digits only, or a minus sign and digits; its value is what the
  digits say.
\<close>

definition literal_value :: "string \<Rightarrow> int option" where
  "literal_value lit =
     (case lit of
        [] \<Rightarrow> None
      | c # cs \<Rightarrow>
          if c = CHR ''-'' then
            (if cs \<noteq> [] \<and> list_all isdigit cs then Some (- dec_val cs) else None)
          else if list_all isdigit lit then Some (dec_val lit)
          else None)"

text \<open>Words stored one after the other from address \<open>a\<close> on.\<close>

fun emplace_seq :: "size_t \<Rightarrow> 32 word list \<Rightarrow> word_map \<Rightarrow> word_map" where
  "emplace_seq a [] m = m"
| "emplace_seq a (w # ws) m = emplace_seq (a + 1) ws (emplace a w m)"

text \<open>
  \<open>appended st st'\<close>: \<open>st'\<close> comes from \<open>st\<close> by storing some words one after the other
  from the address counter of \<open>st\<close> on, which counts them.
\<close>

definition appended :: "ad_state \<Rightarrow> ad_state \<Rightarrow> bool" where
  "appended st st' =
     (\<exists>ws. ad_instructions st' = emplace_seq (ad_lineNum st) ws (ad_instructions st)
           \<and> ad_lineNum st' = ad_lineNum st + of_nat (length ws))"

text \<open>
  Lines by their spelling: a marked line has a colon or a period; its first token under
  the delimiters of pass 1 says whether it is a \<open>.text\<close> line or (any other) label line.
\<close>

definition marked :: "string \<Rightarrow> bool" where
  "marked s = (CHR '':'' \<in> set s \<or> CHR ''.'' \<in> set s)"

definition first_tok :: "string \<Rightarrow> string" where
  "first_tok s = (case tokenizer s '': ,'' of [] \<Rightarrow> [] | t # _ \<Rightarrow> t)"

definition text_line :: "string \<Rightarrow> bool" where
  "text_line s = (marked s \<and> first_tok s = ''.text'')"

definition label_line :: "string \<Rightarrow> bool" where
  "label_line s = (marked s \<and> first_tok s \<noteq> ''.text'')"

section \<open>Unfolding the definitions on a given input\<close>

lemmas reg_eval = GetReg_def char_at_def digit_at2_def stoi_def stoi_val_def leading_digits_def
  negative_def skip_sign_def isspace_def isdigit_def dec_val_def digit_val_def
  bitset_of_int_def bitset_of_size_t_def to_string_def upt_rec

lemmas enc_defs = enc_jump_def enc_addiu_def enc_reg3_def enc_branch_def enc_reg2_def
  enc_mem_def enc_mf_def

lemmas line_eval = ParseInstructions_line_def isLabel_def tokenizer_def next_tok_def
  enc_jump_def enc_addiu_def enc_reg3_def enc_branch_def enc_reg2_def enc_mem_def enc_mf_def
  GetAddress_def GetBranch_def GetOffset_def find_second_def emit_def bitset32_of_string_def
  bits_val_def binary_def

lemmas labels_eval = ParseLabels_def ParseLabels_line_def pl_init_def emplace_label_def
  isLabel_def tokenizer_def


section \<open>Bit strings\<close>

lemma length_to_string [simp]: "length (to_string (w :: 'a::len word)) = LENGTH('a)"
  by (simp add: to_string_def)

lemma to_string_nth:
  "j < LENGTH('a) \<Longrightarrow>
     to_string (w :: 'a::len word) ! j = bit_char (bit w (LENGTH('a) - 1 - j))"
  by (simp add: to_string_def rev_nth bit_char_def)

lemma to_string_nth32: "j < 32 \<Longrightarrow> to_string (w :: 32 word) ! j = bit_char (bit w (31 - j))"
  by (simp add: to_string_nth)

lemma to_string_bit:
  "n < LENGTH('a) \<Longrightarrow>
     to_string (v :: 'a::len word) ! (LENGTH('a) - 1 - n) = bit_char (bit v n)"
  by (simp add: to_string_nth)

lemma to_string_inj: "to_string (v :: 'a::len word) = to_string w \<Longrightarrow> v = w"
proof (rule bit_word_eqI)
  fix n
  assume eq: "to_string v = to_string w" and n: "n < LENGTH('a)"
  have "bit_char (bit v n) = bit_char (bit w n)"
    using to_string_bit [OF n, of v] to_string_bit [OF n, of w] eq by simp
  then show "bit v n = bit w n"
    by (simp add: bit_char_def split: if_splits)
qed

section \<open>The branch resolver\<close>

lemma ucast_scast_low16: "(ucast (scast (x :: 32 word) :: 64 word) :: 16 word) = ucast x"
  by (rule bit_word_eqI) (auto simp add: bit_simps)

lemma ucast_ucast_low16: "(ucast (ucast (y :: 64 word) :: 32 word) :: 16 word) = ucast y"
  by (rule bit_word_eqI) (auto simp add: bit_simps)

lemma take_bit_16_64_diff:
  "take_bit 16 (take_bit 64 a - take_bit 64 b) = take_bit 16 (a - b :: int)"
proof -
  have "take_bit 16 (take_bit 64 a - take_bit 64 b)
      = take_bit 16 (take_bit 16 (take_bit 64 a) - take_bit 16 (take_bit 64 b))"
    by (simp only: take_bit_diff)
  also have "\<dots> = take_bit 16 (take_bit 16 a - take_bit 16 b)"
    by simp
  also have "\<dots> = take_bit 16 (a - b)"
    by (simp only: take_bit_diff)
  finally show ?thesis .
qed

lemma take_bit_16_64_add:
  "take_bit 16 (take_bit 64 a + take_bit 64 b) = take_bit 16 (a + b :: int)"
proof -
  have "take_bit 16 (take_bit 64 a + take_bit 64 b)
      = take_bit 16 (take_bit 16 (take_bit 64 a) + take_bit 16 (take_bit 64 b))"
    by (simp only: take_bit_add)
  also have "\<dots> = take_bit 16 (take_bit 16 a + take_bit 16 b)"
    by simp
  also have "\<dots> = take_bit 16 (a + b)"
    by (simp only: take_bit_add)
  finally show ?thesis .
qed

lemma ucast_diff_low16: "(ucast (a - b :: 64 word) :: 16 word) = ucast a - ucast b"
  by transfer (simp add: take_bit_16_64_diff)

lemma ucast_add_low16: "(ucast (a + b :: 64 word) :: 16 word) = ucast a + ucast b"
  by transfer (simp add: take_bit_16_64_add)

lemma ucast_succ_low16: "(ucast (a + 1 :: 64 word) :: 16 word) = ucast a + 1"
  by (simp add: ucast_add_low16)

lemma GetBranch_field:
  "(bitset_of_int (ucast ((scast (ucast (t :: size_t) :: cint) :: size_t) - (p + 1)) :: cint)
      :: 16 word)
     = word_of_int (uint t - (uint p + 1))"
proof -
  have "(bitset_of_int (ucast ((scast (ucast t :: cint) :: size_t) - (p + 1)) :: cint)
          :: 16 word)
      = ucast ((scast (ucast t :: cint) :: size_t) - (p + 1))"
    by (simp add: bitset_of_int_def bitset_of_size_t_def ucast_scast_low16 ucast_ucast_low16)
  also have "\<dots> = ucast t - (ucast p + 1)"
    by (simp only: ucast_diff_low16 ucast_succ_low16 ucast_scast_low16 ucast_ucast_low16)
  also have "\<dots> = word_of_int (uint t - (uint p + 1))"
    by simp
  finally show ?thesis .
qed

text \<open>
  C1. A branch at instruction address \<open>p\<close> whose target label is bound to \<open>t\<close> gets the
  16-bit field that encodes \<open>t - (p + 1)\<close> in two's complement: the field is the bit
  string of the 16-bit word of that integer, and whenever the difference fits 16 signed
  bits the field read as a signed number is the difference itself. The branches of the
  dispatch for \<open>beq\<close> and \<open>bne\<close> call the resolver with the current address counter and
  the third operand and put its result last in the word.
\<close>

theorem GetBranch_displacement:
  assumes "lbls s = Some t"
  shows "GetBranch p s lbls = Inr (to_string (word_of_int (uint t - (uint p + 1)) :: 16 word))
     \<and> (- (2 ^ 15) \<le> uint t - (uint p + 1) \<and> uint t - (uint p + 1) < 2 ^ 15 \<longrightarrow>
          sint (word_of_int (uint t - (uint p + 1)) :: 16 word) = uint t - (uint p + 1))
     \<and> (\<forall>opcode st m rs rt a b.
           GetReg rs = Inr a \<and> GetReg rt = Inr b \<longrightarrow>
           enc_branch opcode lbls st [m, rs, rt, s]
             = emit st (opcode @ a @ b
                          @ to_string (word_of_int (uint t - (uint (lineNum st) + 1)) :: 16 word)))"
proof (intro conjI allI impI)
  show g: "GetBranch p s lbls
             = Inr (to_string (word_of_int (uint t - (uint p + 1)) :: 16 word))" for p
    using assms
    by (simp only: GetBranch_def find_second_def Let_def option.case bind.simps
        GetBranch_field)
  show "sint (word_of_int (uint t - (uint p + 1)) :: 16 word) = uint t - (uint p + 1)"
    if "- (2 ^ 15) \<le> uint t - (uint p + 1) \<and> uint t - (uint p + 1) < 2 ^ 15"
    using that by (simp only: signed_of_int) (simp add: signed_take_bit_int_eq_self)
  show "enc_branch opcode lbls st [m, rs, rt, s]
          = emit st (opcode @ a @ b
                       @ to_string (word_of_int (uint t - (uint (lineNum st) + 1)) :: 16 word))"
    if "GetReg rs = Inr a \<and> GetReg rt = Inr b" for opcode st m rs rt a b
    using that by (simp add: enc_branch_def next_tok_def g)
qed

theorem GetBranch_displacement_witness:
  "(Map.empty(''done'' \<mapsto> (5 :: size_t))) ''done'' = Some 5
   \<and> GetBranch 2 ''done'' (Map.empty(''done'' \<mapsto> 5)) = Inr ''0000000000000010''
   \<and> sint (word_of_int (5 - (2 + 1)) :: 16 word) = 2
   \<and> GetReg ''$t0'' = Inr ''01000'' \<and> GetReg ''$zero'' = Inr ''00000''
   \<and> enc_branch ''000100'' (Map.empty(''done'' \<mapsto> 5))
        \<lparr>instructions = [], lineNum = 2, out = []\<rparr> [''beq'', ''$t0'', ''$zero'', ''done'']
      = Inr \<lparr>instructions = [(2, 0x11000002)], lineNum = 3, out = []\<rparr>"
proof -
  let ?m = "Map.empty(''done'' \<mapsto> (5 :: size_t))"
  let ?st = "\<lparr>instructions = [], lineNum = 2, out = []\<rparr>"
  have h: "?m ''done'' = Some 5"
    by simp
  have r: "GetReg ''$t0'' = Inr ''01000''" "GetReg ''$zero'' = Inr ''00000''"
    by (simp_all add: GetReg_def char_at_def digit_at2_def stoi_def stoi_val_def
        leading_digits_def negative_def skip_sign_def isspace_def isdigit_def dec_val_def
        digit_val_def bitset_of_int_def bitset_of_size_t_def to_string_def upt_rec)
  have f: "to_string (2 :: 16 word) = ''0000000000000010''"
    by (simp add: to_string_def upt_rec)
  have e: "emit ?st ''00010001000000000000000000000010''
         = Inr \<lparr>instructions = [(2, 0x11000002)], lineNum = 3, out = []\<rparr>"
    by (simp add: emit_def bitset32_of_string_def bits_val_def binary_def)
  note th = GetBranch_displacement [of ?m "''done''" 5 2, OF h]
  from th [THEN conjunct1] have 1: "GetBranch 2 ''done'' ?m = Inr ''0000000000000010''"
    by (simp add: f)
  from th [THEN conjunct2, THEN conjunct1]
  have 2: "sint (word_of_int (5 - (2 + 1)) :: 16 word) = 2"
    by simp
  from th [THEN conjunct2, THEN conjunct2, rule_format, of "''$t0''" "''01000''" "''$zero''"
      "''00000''" "''000100''" ?st "''beq''"] r
  have 3: "enc_branch ''000100'' ?m ?st [''beq'', ''$t0'', ''$zero'', ''done'']
         = Inr \<lparr>instructions = [(2, 0x11000002)], lineNum = 3, out = []\<rparr>"
    by (simp add: f e)
  show ?thesis
    using h 1 2 r 3 by simp
qed

section \<open>The register resolver\<close>

text \<open>
  C5. \<open>GetReg\<close> looks at the second character of the name only, and a digit that is too
  large falls out of the chain of tests to the last \<open>return\<close>: \<open>$a7\<close> and \<open>$s9\<close>, which
  name no register, get the code of \<open>$ra\<close>, and \<open>$zebra\<close> gets the code of \<open>$zero\<close>. Only
  a second character outside \<open>z a t v s k g f r\<close> ends the run. The line
  \<open>addu $a7, $t0, $t1\<close> is encoded with destination register 31.
\<close>

theorem GetReg_unknown_names:
  "GetReg ''$a7'' = Inr ''11111'' \<and> GetReg ''$s9'' = Inr ''11111''
   \<and> GetReg ''$zebra'' = Inr ''00000'' \<and> GetReg ''$x1'' = Inl (InvalidRegister ''$x1'')
   \<and> ParseInstructions_line Map.empty \<lparr>instructions = [], lineNum = 0, out = []\<rparr>
        ''addu $a7, $t0, $t1''
      = Inr \<lparr>instructions = [(0, 0x0109F821)], lineNum = 1, out = []\<rparr>"
  by (simp add: line_eval reg_eval)

section \<open>The hexadecimal formatter\<close>

lemma hex_of_test_bits:
  "hex_of_test [bit_char b3, bit_char b2, bit_char b1, bit_char b0]
     = [hex_char (8 * of_bool b3 + 4 * of_bool b2 + 2 * of_bool b1 + of_bool b0)]"
  by (cases b3; cases b2; cases b1; cases b0)
     (simp_all add: hex_of_test_def bit_char_def hex_char_def)

lemma take_bit4_nat:
  "take_bit 4 (n::nat)
     = 8 * of_bool (bit n 3) + 4 * of_bool (bit n 2) + 2 * of_bool (bit n 1) + of_bool (bit n 0)"
proof -
  have "take_bit (Suc (Suc (Suc (Suc 0)))) n
      = 8 * of_bool (bit n 3) + 4 * of_bool (bit n 2) + 2 * of_bool (bit n 1)
        + of_bool (bit n 0)"
    by (simp only: take_bit_Suc_from_most) (simp add: eval_nat_numeral)
  then show ?thesis by (simp add: eval_nat_numeral)
qed

lemma nibble_bits:
  "nibble w k = 8 * of_bool (bit w (4 * k + 3)) + 4 * of_bool (bit w (4 * k + 2))
                + 2 * of_bool (bit w (4 * k + 1)) + of_bool (bit w (4 * k))"
proof -
  have "(16::nat) ^ k = 2 ^ (4 * k)"
    by (simp add: power_mult)
  then have "nibble w k = take_bit 4 (drop_bit (4 * k) (unat w))"
    by (simp add: nibble_def take_bit_eq_mod drop_bit_eq_div)
  then show ?thesis
    by (simp add: take_bit4_nat bit_drop_bit_eq bit_unsigned_iff add.commute)
qed

lemma ParseHex_steps: "filter (\<lambda>i. i mod 4 = 0) [0..<32] = [0, 4, 8, 12, 16, 20, 24, 28]"
  by code_simp

lemma upt_four: "[i..<i + 4] = [i, i + 1, i + 2, i + 3]"
  by (simp add: upt_conv_Cons)

lemma ParseHex_group:
  assumes "k < 8"
  shows "hex_of_test (map (\<lambda>j. to_string (w :: 32 word) ! j) [28 - 4 * k..<28 - 4 * k + 4])
           = [hex_char (nibble w k)]"
proof -
  have lt: "28 - 4 * k < 32" "28 - 4 * k + 1 < 32" "28 - 4 * k + 2 < 32" "28 - 4 * k + 3 < 32"
    using assms by arith+
  have e0: "31 - (28 - 4 * k) = 4 * k + 3" using assms by arith
  have e1: "31 - (28 - 4 * k + 1) = 4 * k + 2" using assms by arith
  have e2: "31 - (28 - 4 * k + 2) = 4 * k + 1" using assms by arith
  have e3: "31 - (28 - 4 * k + 3) = 4 * k" using assms by arith
  have n0: "to_string w ! (28 - 4 * k) = bit_char (bit w (4 * k + 3))"
    using to_string_nth32 [OF lt(1), of w] unfolding e0 .
  have n1: "to_string w ! (28 - 4 * k + 1) = bit_char (bit w (4 * k + 2))"
    using to_string_nth32 [OF lt(2), of w] unfolding e1 .
  have n2: "to_string w ! (28 - 4 * k + 2) = bit_char (bit w (4 * k + 1))"
    using to_string_nth32 [OF lt(3), of w] unfolding e2 .
  have n3: "to_string w ! (28 - 4 * k + 3) = bit_char (bit w (4 * k))"
    using to_string_nth32 [OF lt(4), of w] unfolding e3 .
  show ?thesis
    by (simp only: upt_four list.map n0 n1 n2 n3 hex_of_test_bits nibble_bits)
qed

lemma ParseHex_hex8: "ParseHex w = hex8 w"
  using ParseHex_group [of 7 w] ParseHex_group [of 6 w] ParseHex_group [of 5 w]
        ParseHex_group [of 4 w] ParseHex_group [of 3 w] ParseHex_group [of 2 w]
        ParseHex_group [of 1 w] ParseHex_group [of 0 w]
  by (simp add: ParseHex_def ParseHex_steps hex8_def)

lemma nibble_less: "nibble w k < 16"
  by (simp add: nibble_def)

lemma hex_char_lower: "n < 16 \<Longrightarrow> hex_char n \<in> set ''0123456789abcdef''"
  unfolding hex_char_def by (rule nth_mem) simp

lemma hex8_shape: "length (hex8 w) = 8 \<and> set (hex8 w) \<subseteq> set ''0123456789abcdef''"
proof -
  have "set (map (\<lambda>k. hex_char (nibble w k)) [7, 6, 5, 4, 3, 2, 1, 0])
          \<subseteq> set ''0123456789abcdef''"
    unfolding set_map using hex_char_lower [OF nibble_less] by blast
  then show ?thesis
    by (simp only: hex8_def length_map) simp
qed

section \<open>The word map\<close>

lemma emplace_keys: "fst ` set (emplace k b xs) = insert k (fst ` set xs)"
  by (induction k b xs rule: emplace.induct) auto

lemma emplace_ordered: "ordered_map xs \<Longrightarrow> ordered_map (emplace k b xs)"
  unfolding ordered_map_def
proof (induction k b xs rule: emplace.induct)
  case (1 k b)
  then show ?case by simp
next
  case (2 k b k' b' xs)
  then show ?case
    using emplace_keys [of k b xs] by (auto simp add: image_iff)
qed

lemma ordered_keys:
  "ordered_map bits \<Longrightarrow> sorted_list_of_set (fst ` set bits) = map fst bits"
  unfolding ordered_map_def
  by (metis list.set_map sorted_list_of_set.idem_if_sorted_distinct strict_sorted_iff)

lemma ordered_lookup:
  "ordered_map bits \<Longrightarrow> map (\<lambda>a. (a, the (map_of bits a))) (map fst bits) = bits"
  unfolding ordered_map_def
proof (induction bits)
  case Nil
  then show ?case by simp
next
  case (Cons x xs)
  obtain k b where x: "x = (k, b)" by (cases x)
  have "\<forall>a\<in>set (map fst xs). a \<noteq> k"
    using Cons.prems by (auto simp add: x)
  then have "map (\<lambda>a. (a, the (map_of (x # xs) a))) (map fst xs)
           = map (\<lambda>a. (a, the (map_of xs a))) (map fst xs)"
    by (simp add: x)
  with Cons show ?case by (simp add: x)
qed

section \<open>\<open>Display\<close>\<close>

lemma Display_lines:
  assumes "ordered_map bits"
  shows "map (\<lambda>a. hex8 (the (map_of bits a)) @ [CHR 0x0A]) (map fst bits)
           = map (\<lambda>(a, w). hex8 w @ [CHR 0x0A]) bits"
proof -
  have "map (\<lambda>a. hex8 (the (map_of bits a)) @ [CHR 0x0A]) (map fst bits)
      = map (\<lambda>(a, w). hex8 w @ [CHR 0x0A])
            (map (\<lambda>a. (a, the (map_of bits a))) (map fst bits))"
    by (simp add: comp_def)
  then show ?thesis
    by (simp only: ordered_lookup [OF assms])
qed

text \<open>
  C8. For a word map (its keys ascend, as in every \<open>std::map\<close>), \<open>Display\<close> writes one
  empty line and then, for every address in ascending order, the word at that address as
  a line of its eight nibbles from the most significant down, each mapped to one of
  \<open>0123456789abcdef\<close>; every such line has exactly eight characters, all of them
  lowercase hexadecimal digits.
\<close>

theorem Display_hex_lines:
  assumes "ordered_map bits"
  shows "Display bits =
           CHR 0x0A # concat (map (\<lambda>a. hex8 (the (map_of bits a)) @ [CHR 0x0A])
                                  (sorted_list_of_set (fst ` set bits)))
         \<and> (\<forall>w. length (hex8 w) = 8 \<and> set (hex8 w) \<subseteq> set ''0123456789abcdef'')"
proof (rule conjI)
  show "Display bits =
           CHR 0x0A # concat (map (\<lambda>a. hex8 (the (map_of bits a)) @ [CHR 0x0A])
                                  (sorted_list_of_set (fst ` set bits)))"
    by (simp only: Display_def ParseHex_hex8 ordered_keys [OF assms] Display_lines [OF assms])
next
  show "\<forall>w. length (hex8 w) = 8 \<and> set (hex8 w) \<subseteq> set ''0123456789abcdef''"
    using hex8_shape by blast
qed

theorem Display_hex_lines_witness:
  "ordered_map [(0, 0x24080005), (1, 0xC)]
   \<and> Display [(0, 0x24080005), (1, 0xC)]
       = CHR 0x0A # ''24080005'' @ CHR 0x0A # ''0000000c'' @ [CHR 0x0A]"
proof -
  have h: "ordered_map [(0, 0x24080005), (1, 0xC)]"
    by (simp add: ordered_map_def)
  have v: "hex8 0x24080005 = ''24080005''" "hex8 0xC = ''0000000c''"
    by (simp_all add: hex8_def nibble_def hex_char_def)
  have k: "sorted_list_of_set (fst ` set [(0 :: size_t, 0x24080005 :: 32 word), (1, 0xC)]) = [0, 1]"
    using ordered_keys [OF h] by simp
  from Display_hex_lines [OF h] have
    "Display [(0, 0x24080005), (1, 0xC)] =
       CHR 0x0A # concat (map (\<lambda>a. hex8 (the (map_of [(0 :: size_t, 0x24080005 :: 32 word), (1, 0xC)] a)) @ [CHR 0x0A])
                              (sorted_list_of_set (fst ` set [(0 :: size_t, 0x24080005 :: 32 word), (1, 0xC)])))"
    by (rule conjunct1)
  then show ?thesis
    unfolding k using h by (simp add: v)
qed

section \<open>Bit strings as words\<close>

lemma bits_val_snoc: "bits_val (cs @ [c]) = 2 * bits_val cs + (if c = CHR ''1'' then 1 else 0)"
  by (simp add: bits_val_def)

lemma bit_bits_val:
  "bit (bits_val cs) i \<longleftrightarrow> i < length cs \<and> cs ! (length cs - 1 - i) = CHR ''1''"
proof (induction cs arbitrary: i rule: rev_induct)
  case Nil
  then show ?case by (simp add: bits_val_def)
next
  case (snoc c cs)
  show ?case
  proof (cases i)
    case 0
    then show ?thesis by (simp add: bits_val_snoc bit_0)
  next
    case (Suc j)
    have "bit (bits_val (cs @ [c])) (Suc j) = bit (bits_val cs) j"
      by (simp add: bits_val_snoc bit_Suc)
    then show ?thesis
      using snoc.IH [of j] Suc by (auto simp add: nth_append)
  qed
qed

lemma binary_nth: "binary cs \<Longrightarrow> j < length cs \<Longrightarrow> cs ! j = bit_char (cs ! j = CHR ''1'')"
  by (auto simp add: binary_def list_all_length bit_char_def)

lemma to_string_bits_val:
  assumes "binary cs" "length cs = 32"
  shows "to_string (of_nat (bits_val cs) :: 32 word) = cs"
proof (rule nth_equalityI)
  show "length (to_string (of_nat (bits_val cs) :: 32 word)) = length cs"
    using assms by simp
next
  fix j
  assume "j < length (to_string (of_nat (bits_val cs) :: 32 word))"
  then have j: "j < 32" by simp
  then have "to_string (of_nat (bits_val cs) :: 32 word) ! j
           = bit_char (bit (of_nat (bits_val cs) :: 32 word) (31 - j))"
    by (rule to_string_nth32)
  also have "\<dots> = bit_char (cs ! j = CHR ''1'')"
  proof -
    have "31 - j < 32" by simp
    then show ?thesis
      using j assms by (simp add: bit_of_nat_iff bit_bits_val)
  qed
  also have "\<dots> = cs ! j"
    using binary_nth [of cs j] j assms by simp
  finally show "to_string (of_nat (bits_val cs) :: 32 word) ! j = cs ! j" .
qed

lemma binary_to_string [simp]: "binary (to_string w)"
  by (auto simp add: binary_def to_string_def list_all_iff)

lemma binary_append [simp]: "binary (a @ b) \<longleftrightarrow> binary a \<and> binary b"
  by (simp add: binary_def)

lemma emit_binary:
  assumes "binary bin" "length bin = 32"
  shows "emit st bin = Inr (st\<lparr>instructions := emplace (lineNum st) (of_nat (bits_val bin)) (instructions st),
                  lineNum := lineNum st + 1\<rparr>)"
  using assms by (simp add: emit_def bitset32_of_string_def)

lemma binary_simps [simp]:
  "binary []" "binary (c # cs) \<longleftrightarrow> (c = CHR ''0'' \<or> c = CHR ''1'') \<and> binary cs"
  by (simp_all add: binary_def)

section \<open>The dispatch of \<open>ParseInstructions\<close>\<close>

lemma split_tok_hd:
  "split_tok delim cur cs = t # ts \<Longrightarrow> cur \<noteq> [] \<Longrightarrow> hd t = hd cur"
  by (induction cs arbitrary: cur) (auto split: if_splits)

lemma tokenizer_hd:
  assumes "tokenizer s delim = t # ts" "hd s \<notin> set delim"
  shows "hd t = hd s"
proof (cases s)
  case Nil
  with assms show ?thesis by (simp add: tokenizer_def)
next
  case (Cons c cs)
  with assms have "split_tok delim [c] cs = t # ts"
    by (simp add: tokenizer_def)
  then show ?thesis
    using split_tok_hd [of delim "[c]" cs t ts] Cons by simp
qed

text \<open>
  C10. A line that is not a label line, has a first character \<open>j\<close> and a second token
  bound in the label table is encoded as a jump whatever its first token is: the word
  whose bits are \<open>000010\<close> followed by the 26-bit address of the second token is stored
  at the current address and the address counter advances by one.
\<close>

theorem jump_dispatch:
  assumes "\<not> isLabel s lbls"
      and "hd s = CHR ''j''"
      and "tokenizer s '', ()'' = m # a # rest"
      and "lbls a = Some t"
  shows "\<exists>w. to_string w = ''000010'' @ to_string (ucast t :: 26 word)
             \<and> ParseInstructions_line lbls st s
                 = Inr (st\<lparr>instructions := emplace (lineNum st) w (instructions st),
                          lineNum := lineNum st + 1\<rparr>)"
proof -
  let ?bin = "''000010'' @ to_string (ucast t :: 26 word)"
  have "hd m = CHR ''j''"
    using tokenizer_hd [OF assms(3)] assms(2) by simp
  then have m: "m \<noteq> ''syscall''"
    by auto
  have b: "binary ?bin" "length ?bin = 32"
    by simp_all
  have "ParseInstructions_line lbls st s = emit st ?bin"
    using assms m
    by (simp add: ParseInstructions_line_def enc_jump_def next_tok_def GetAddress_def
        find_second_def bitset_of_size_t_def)
  also note emit_binary [OF b, of st]
  finally have "ParseInstructions_line lbls st s
      = Inr (st\<lparr>instructions := emplace (lineNum st) (of_nat (bits_val ?bin)) (instructions st),
               lineNum := lineNum st + 1\<rparr>)" .
  with to_string_bits_val [OF b] show ?thesis
    by (intro exI [of _ "of_nat (bits_val ?bin)"] conjI)
qed

theorem jump_dispatch_witness:
  "\<not> isLabel ''jr loop'' (Map.empty(''loop'' \<mapsto> 3)) \<and> hd ''jr loop'' = CHR ''j''
   \<and> tokenizer ''jr loop'' '', ()'' = [''jr'', ''loop'']
   \<and> (Map.empty(''loop'' \<mapsto> (3 :: size_t))) ''loop'' = Some 3
   \<and> (\<exists>w :: 32 word. to_string w = ''00001000000000000000000000000011''
         \<and> ParseInstructions_line (Map.empty(''loop'' \<mapsto> 3))
              \<lparr>instructions = [], lineNum = 7, out = []\<rparr> ''jr loop''
             = Inr \<lparr>instructions = [(7, w)], lineNum = 8, out = []\<rparr>)"
proof -
  have h1: "\<not> isLabel ''jr loop'' (Map.empty(''loop'' \<mapsto> 3))"
    by (simp add: isLabel_def)
  have h2: "hd ''jr loop'' = CHR ''j''"
    by simp
  have h3: "tokenizer ''jr loop'' '', ()'' = ''jr'' # ''loop'' # []"
    by (simp add: tokenizer_def)
  have h4: "(Map.empty(''loop'' \<mapsto> (3 :: size_t))) ''loop'' = Some 3"
    by simp
  have t: "to_string (3 :: 26 word) = ''00000000000000000000000011''"
    by (simp add: to_string_def upt_rec)
  let ?m = "Map.empty(''loop'' \<mapsto> (3 :: size_t))"
  let ?st = "\<lparr>instructions = [], lineNum = 7, out = []\<rparr>"
  from jump_dispatch [OF h1 h2 h3 h4, of ?st]
  obtain w where w: "to_string w = ''000010'' @ to_string (ucast (3 :: size_t) :: 26 word)"
    and r: "ParseInstructions_line ?m ?st ''jr loop''
              = Inr (?st\<lparr>instructions := emplace (lineNum ?st) w (instructions ?st),
                         lineNum := lineNum ?st + 1\<rparr>)"
    by blast
  have "to_string w = ''00001000000000000000000000000011''"
    using w by (simp add: t)
  moreover have "ParseInstructions_line ?m ?st ''jr loop''
                   = Inr \<lparr>instructions = [(7, w)], lineNum = 8, out = []\<rparr>"
    unfolding r by simp
  ultimately show ?thesis
    using h1 h2 h3 h4 by blast
qed

text \<open>
  C7, as the code has it. A line that is not a label line, has a token, does not start
  with the character \<open>j\<close> and whose first token is none of the fifteen mnemonics the
  dispatch compares with: the message with the current address is written, no word is
  stored, the address counter advances by one and the loop goes on with the next line.
\<close>

theorem bad_instruction_reported:
  assumes "\<not> isLabel s lbls"
      and "tokenizer s '', ()'' = m # rest"
      and "hd s \<noteq> CHR ''j''"
      and "m \<notin> set mnemonics"
  shows "ParseInstructions_line lbls st s
           = Inr (st\<lparr>out := out st @ ''Error! Bad instruction on line ''
                                   @ dec_string (unat (lineNum st)) @ [CHR 0x0A],
                      lineNum := lineNum st + 1\<rparr>)
         \<and> ParseInstructions_loop lbls st (s # src)
           = ParseInstructions_loop lbls
               (st\<lparr>out := out st @ ''Error! Bad instruction on line ''
                                   @ dec_string (unat (lineNum st)) @ [CHR 0x0A],
                     lineNum := lineNum st + 1\<rparr>) src"
proof -
  have "ParseInstructions_line lbls st s = Inr (bad_instruction st)"
    using assms by (simp add: ParseInstructions_line_def mnemonics_def)
  then show ?thesis
    by (simp add: bad_instruction_def)
qed

theorem bad_instruction_reported_witness:
  "\<not> isLabel ''foo $t0'' Map.empty \<and> tokenizer ''foo $t0'' '', ()'' = [''foo'', ''$t0'']
   \<and> hd ''foo $t0'' \<noteq> CHR ''j'' \<and> ''foo'' \<notin> set mnemonics
   \<and> ParseInstructions_line Map.empty \<lparr>instructions = [], lineNum = 12, out = []\<rparr> ''foo $t0''
       = Inr \<lparr>instructions = [], lineNum = 13,
              out = ''Error! Bad instruction on line 12'' @ [CHR 0x0A]\<rparr>"
proof -
  have h1: "\<not> isLabel ''foo $t0'' Map.empty"
    by (simp add: isLabel_def)
  have h2: "tokenizer ''foo $t0'' '', ()'' = ''foo'' # [''$t0'']"
    by (simp add: tokenizer_def)
  have h3: "hd ''foo $t0'' \<noteq> CHR ''j''"
    by simp
  have h4: "''foo'' \<notin> set mnemonics"
    by (simp add: mnemonics_def)
  have d: "dec_string 12 = ''12''"
    by code_simp
  from bad_instruction_reported [OF h1 h2 h3 h4,
      of "\<lparr>instructions = [], lineNum = 12, out = []\<rparr>" "[]"]
  have "ParseInstructions_line Map.empty \<lparr>instructions = [], lineNum = 12, out = []\<rparr> ''foo $t0''
       = Inr \<lparr>instructions = [], lineNum = 13,
              out = ''Error! Bad instruction on line 12'' @ [CHR 0x0A]\<rparr>"
    by (simp add: d del: dec_string.simps)
  with h1 h2 h3 h4 show ?thesis
    by simp
qed

text \<open>
  The line \<open>jal foo\<close> is not a label line and \<open>jal\<close> is no mnemonic of the dispatch, yet
  no message is written and a jump word is stored: the dispatch takes every line that
  starts with \<open>j\<close> for a jump.
\<close>

theorem jal_counterexample:
  "\<not> isLabel ''jal foo'' (Map.empty(''foo'' \<mapsto> 5))
   \<and> tokenizer ''jal foo'' '', ()'' = [''jal'', ''foo'']
   \<and> ''jal'' \<notin> set mnemonics
   \<and> ParseInstructions_line (Map.empty(''foo'' \<mapsto> 5))
        \<lparr>instructions = [], lineNum = 0, out = []\<rparr> ''jal foo''
      = Inr \<lparr>instructions = [(0, 0x08000005)], lineNum = 1, out = []\<rparr>"
  by (simp add: isLabel_def tokenizer_def mnemonics_def ParseInstructions_line_def enc_jump_def
      next_tok_def GetAddress_def find_second_def bitset_of_size_t_def emit_def
      bitset32_of_string_def binary_def bits_val_def to_string_def upt_rec)

section \<open>Decimal literals\<close>

lemma isdigit_not_space: "isdigit c \<Longrightarrow> \<not> isspace c"
  by (auto simp add: isdigit_def isspace_def)

lemma isdigit_not_sign: "isdigit c \<Longrightarrow> c \<noteq> CHR ''-'' \<and> c \<noteq> CHR ''+''"
  by (auto simp add: isdigit_def)

lemma takeWhile_all: "list_all P xs \<Longrightarrow> takeWhile P xs = xs"
  by (induction xs) auto

lemma literal_value_stoi:
  assumes "literal_value lit = Some v"
  shows "leading_digits lit \<noteq> [] \<and> stoi_val lit = v"
proof (cases lit)
  case Nil
  with assms show ?thesis by (simp add: literal_value_def)
next
  case (Cons c cs)
  show ?thesis
  proof (cases "c = CHR ''-''")
    case True
    with assms Cons have cs: "cs \<noteq> []" "list_all isdigit cs" and v: "v = - dec_val cs"
      by (auto simp add: literal_value_def split: if_splits)
    have "\<not> isspace c"
      using True by (simp add: isspace_def)
    then have "dropWhile isspace lit = c # cs"
      using Cons by simp
    then have "leading_digits lit = cs" "negative lit"
      using True cs by (simp_all add: leading_digits_def negative_def skip_sign_def takeWhile_all)
    then show ?thesis
      using cs v by (simp add: stoi_val_def)
  next
    case False
    with assms Cons have ds: "list_all isdigit (c # cs)" and v: "v = dec_val (c # cs)"
      by (auto simp add: literal_value_def split: if_splits)
    then have c: "isdigit c" by simp
    then have "dropWhile isspace lit = c # cs"
      using Cons isdigit_not_space by simp
    then have "leading_digits lit = c # cs" "\<not> negative lit"
      using ds False isdigit_not_sign [OF c] takeWhile_all [OF ds]
      by (simp_all add: leading_digits_def negative_def skip_sign_def)
    then show ?thesis
      using v by (simp add: stoi_val_def)
  qed
qed

lemma ucast_wi_low16: "(ucast (word_of_int v :: 32 word) :: 16 word) = word_of_int v"
  by transfer simp

lemma bitset16_of_int: "(bitset_of_int (word_of_int v) :: 16 word) = word_of_int v"
  by (simp only: bitset_of_int_def bitset_of_size_t_def ucast_scast_low16 ucast_wi_low16)

lemma stoi_in_range:
  "leading_digits s \<noteq> [] \<Longrightarrow> - (2 ^ 31) \<le> stoi_val s \<Longrightarrow> stoi_val s < 2 ^ 31 \<Longrightarrow>
     stoi s = Inr (word_of_int (stoi_val s))"
  by (simp add: stoi_def)

lemma GetOffset_literal:
  assumes "lbls s = None" "stoi s = Inr (word_of_int v)"
  shows "GetOffset s lbls = Inr (to_string (word_of_int v :: 16 word))"
proof -
  have "(bitset_of_size_t (scast (word_of_int v :: cint) :: size_t) :: 16 word) = word_of_int v"
    using bitset16_of_int [of v] by (simp only: bitset_of_int_def)
  then show ?thesis
    using assms by (simp add: GetOffset_def Let_def)
qed

text \<open>
  C9, as the code has it. A decimal literal whose value \<open>v\<close> fits \<open>int\<close>
  (\<open>-2^31 \<le> v < 2^31\<close>) is stored in the 16-bit immediate field of \<open>addiu\<close> as \<open>v\<close>
  reduced modulo \<open>2^16\<close>, with no error; so it is in the 16-bit offset field of \<open>lw\<close> and
  \<open>sw\<close>, provided the literal is not itself a key of the label table.
\<close>

theorem literal_truncation:
  assumes "literal_value lit = Some v" and "- (2 ^ 31) \<le> v" and "v < 2 ^ 31"
  shows "(GetReg rs = Inr a \<and> GetReg rt = Inr b \<longrightarrow>
            enc_addiu st [m, rt, rs, lit]
              = emit st (''001001'' @ a @ b @ to_string (word_of_int v :: 16 word)))
         \<and> (lbls lit = None \<longrightarrow>
              GetOffset lit lbls = Inr (to_string (word_of_int v :: 16 word)))
         \<and> uint (word_of_int v :: 16 word) = v mod 2 ^ 16"
proof -
  have s: "stoi lit = Inr (word_of_int v)"
    using literal_value_stoi [OF assms(1)] assms(2,3) stoi_in_range [of lit] by simp
  have "GetReg rs = Inr a \<and> GetReg rt = Inr b \<longrightarrow>
            enc_addiu st [m, rt, rs, lit]
              = emit st (''001001'' @ a @ b @ to_string (word_of_int v :: 16 word))"
    by (simp add: enc_addiu_def next_tok_def s bitset16_of_int)
  moreover have "lbls lit = None \<longrightarrow>
              GetOffset lit lbls = Inr (to_string (word_of_int v :: 16 word))"
    using GetOffset_literal [OF _ s] by simp
  moreover have "uint (word_of_int v :: 16 word) = v mod 2 ^ 16"
    by (simp add: uint_word_of_int take_bit_eq_mod)
  ultimately show ?thesis by blast
qed

theorem literal_truncation_witness:
  "literal_value ''70000'' = Some 70000 \<and> - (2 ^ 31) \<le> (70000 :: int) \<and> (70000 :: int) < 2 ^ 31
   \<and> GetReg ''$zero'' = Inr ''00000'' \<and> GetReg ''$t0'' = Inr ''01000''
   \<and> enc_addiu \<lparr>instructions = [], lineNum = 0, out = []\<rparr>
         [''addiu'', ''$t0'', ''$zero'', ''70000'']
       = Inr \<lparr>instructions = [(0, 0x24081170)], lineNum = 1, out = []\<rparr>
   \<and> GetOffset ''70000'' Map.empty = Inr ''0001000101110000''
   \<and> uint (word_of_int 70000 :: 16 word) = 4464"
proof -
  have h1: "literal_value ''70000'' = Some 70000"
    by (simp add: literal_value_def isdigit_def dec_val_def digit_val_def)
  have h2: "- (2 ^ 31) \<le> (70000 :: int)" and h3: "(70000 :: int) < 2 ^ 31"
    by simp_all
  have r: "GetReg ''$zero'' = Inr ''00000''" "GetReg ''$t0'' = Inr ''01000''"
    by (simp_all add: reg_eval)
  have f: "to_string (70000 :: 16 word) = ''0001000101110000''"
    by (simp add: to_string_def upt_rec)
  have e: "emit \<lparr>instructions = [], lineNum = 0, out = []\<rparr> ''00100100000010000001000101110000''
         = Inr \<lparr>instructions = [(0, 0x24081170)], lineNum = 1, out = []\<rparr>"
    by (simp add: emit_def bitset32_of_string_def bits_val_def)
  from literal_truncation [OF h1 h2 h3, of "''$zero''" "''00000''" "''$t0''" "''01000''"
      "\<lparr>instructions = [], lineNum = 0, out = []\<rparr>" "''addiu''" Map.empty]
  show ?thesis
    using h1 r e by (simp add: f)
qed

text \<open>
  The literal \<open>2147483648\<close> does not fit \<open>int\<close>: \<open>std::stoi\<close> throws \<open>std::out_of_range\<close>
  and the run ends.
\<close>

theorem literal_out_of_range:
  "literal_value ''2147483648'' = Some 2147483648
   \<and> ParseInstructions_line Map.empty \<lparr>instructions = [], lineNum = 0, out = []\<rparr>
        ''addiu $t0, $zero, 2147483648'' = Inl OutOfRange
   \<and> GetOffset ''2147483648'' Map.empty = Inl OutOfRange"
  by (simp add: literal_value_def line_eval reg_eval)

lemma literal_beyond_int:
  assumes "literal_value lit = Some v" and "v < - (2 ^ 31) \<or> 2 ^ 31 \<le> v"
  shows "stoi lit = Inl OutOfRange"
  using literal_value_stoi [OF assms(1)] assms(2) by (auto simp add: stoi_def)

section \<open>Operands that are not in the label table\<close>

text \<open>
  What the offset resolver does with an operand that is not a key of the label table:
  \<open>GetOffset\<close> hands it to \<open>std::stoi\<close>. Resolution fails with \<open>std::invalid_argument\<close>
  exactly when the operand has no decimal number in front, with \<open>std::out_of_range\<close> when
  that number does not fit \<open>int\<close>, and otherwise the field is that number reduced to 16
  bits.
\<close>

lemma GetOffset_unbound:
  assumes "lbls s = None"
  shows "(leading_digits s = [] \<longrightarrow> GetOffset s lbls = Inl InvalidArgument)
         \<and> (leading_digits s \<noteq> [] \<and> (stoi_val s < - (2 ^ 31) \<or> 2 ^ 31 \<le> stoi_val s) \<longrightarrow>
              GetOffset s lbls = Inl OutOfRange)
         \<and> (leading_digits s \<noteq> [] \<and> - (2 ^ 31) \<le> stoi_val s \<and> stoi_val s < 2 ^ 31 \<longrightarrow>
              GetOffset s lbls = Inr (to_string (word_of_int (stoi_val s) :: 16 word)))"
proof (intro conjI impI)
  assume "leading_digits s = []"
  then show "GetOffset s lbls = Inl InvalidArgument"
    using assms by (simp add: GetOffset_def stoi_def)
next
  assume "leading_digits s \<noteq> [] \<and> (stoi_val s < - (2 ^ 31) \<or> 2 ^ 31 \<le> stoi_val s)"
  then show "GetOffset s lbls = Inl OutOfRange"
    using assms by (auto simp add: GetOffset_def stoi_def)
next
  assume "leading_digits s \<noteq> [] \<and> - (2 ^ 31) \<le> stoi_val s \<and> stoi_val s < 2 ^ 31"
  then have "stoi s = Inr (word_of_int (stoi_val s))"
    by (simp add: stoi_in_range)
  then show "GetOffset s lbls = Inr (to_string (word_of_int (stoi_val s) :: 16 word))"
    using assms by (rule GetOffset_literal [rotated])
qed

lemma GetOffset_unbound_example:
  "(Map.empty(''.data'' \<mapsto> (7 :: size_t))) ''buf'' = None
   \<and> leading_digits ''buf'' = []
   \<and> GetOffset ''buf'' (Map.empty(''.data'' \<mapsto> 7)) = Inl InvalidArgument
   \<and> (Map.empty(''.data'' \<mapsto> (7 :: size_t))) ''-3rd'' = None
   \<and> leading_digits ''-3rd'' = ''3'' \<and> stoi_val ''-3rd'' = - 3
   \<and> GetOffset ''-3rd'' (Map.empty(''.data'' \<mapsto> 7)) = Inr ''1111111111111101''"
proof -
  let ?m = "Map.empty(''.data'' \<mapsto> (7 :: size_t))"
  have h1: "?m ''buf'' = None" and h2: "?m ''-3rd'' = None"
    by simp_all
  have d1: "leading_digits ''buf'' = []"
    and d2: "leading_digits ''-3rd'' = ''3''" and v2: "stoi_val ''-3rd'' = - 3"
    by (simp_all add: stoi_val_def leading_digits_def negative_def skip_sign_def isspace_def
        isdigit_def dec_val_def digit_val_def)
  have f: "to_string (- 3 :: 16 word) = ''1111111111111101''"
    by (simp add: to_string_def upt_rec)
  from GetOffset_unbound [of ?m "''buf''"] h1 d1
  have "GetOffset ''buf'' ?m = Inl InvalidArgument"
    by simp
  moreover from GetOffset_unbound [of ?m "''-3rd''"] h2 d2 v2 f
  have "GetOffset ''-3rd'' ?m = Inr ''1111111111111101''"
    by simp
  ultimately show ?thesis
    using h1 h2 d1 d2 v2 by simp
qed

text \<open>
  C6. No resolver reports a label that is not in the table. \<open>GetAddress\<close> and \<open>GetBranch\<close>
  read \<open>find(s)->second\<close> without comparing the iterator with \<open>end()\<close>, the test that
  \<open>GetOffset\<close> makes: for \<open>j nowhere\<close> and \<open>beq $t0, $t1, nowhere\<close> with no label
  \<open>nowhere\<close> the code reads through the past-the-end iterator and raises nothing (the
  outcome \<open>Undefined\<close>). \<open>GetOffset\<close> takes an operand that is not a key for a number:
  \<open>lw $t0, 2nd($gp)\<close> with no label \<open>2nd\<close> is encoded with offset 2.
\<close>

theorem unresolved_label_unchecked:
  "(Map.empty(''.data'' \<mapsto> (7 :: size_t))) ''nowhere'' = None
   \<and> GetAddress ''nowhere'' (Map.empty(''.data'' \<mapsto> 7)) = Inl Undefined
   \<and> GetBranch 0 ''nowhere'' (Map.empty(''.data'' \<mapsto> 7)) = Inl Undefined
   \<and> ParseInstructions_line (Map.empty(''.data'' \<mapsto> 7))
        \<lparr>instructions = [], lineNum = 0, out = []\<rparr> ''j nowhere'' = Inl Undefined
   \<and> ParseInstructions_line (Map.empty(''.data'' \<mapsto> 7))
        \<lparr>instructions = [], lineNum = 0, out = []\<rparr> ''beq $t0, $t1, nowhere'' = Inl Undefined
   \<and> (Map.empty(''.data'' \<mapsto> (7 :: size_t))) ''2nd'' = None
   \<and> GetOffset ''2nd'' (Map.empty(''.data'' \<mapsto> 7)) = Inr ''0000000000000010''
   \<and> ParseInstructions_line (Map.empty(''.data'' \<mapsto> 7))
        \<lparr>instructions = [], lineNum = 0, out = []\<rparr> ''lw $t0, 2nd($gp)''
      = Inr \<lparr>instructions = [(0, 0x8F880002)], lineNum = 1, out = []\<rparr>"
  by (simp add: line_eval reg_eval)

section \<open>The data segment encoder\<close>

lemma bind_eq_Inr: "bind x f = Inr y \<longleftrightarrow> (\<exists>v. x = Inr v \<and> f v = Inr y)"
  by (cases x) simp_all

lemma emplace_seq_append:
  "emplace_seq a (ws @ ws') m = emplace_seq (a + of_nat (length ws)) ws' (emplace_seq a ws m)"
  by (induction ws arbitrary: a m) (simp_all add: add.assoc add.commute)

lemma appended_refl: "appended st st"
  unfolding appended_def by (rule exI [of _ "[]"]) simp

lemma appended_trans:
  assumes "appended st st'" "appended st' st''"
  shows "appended st st''"
proof -
  from assms(1) obtain ws where
    1: "ad_instructions st' = emplace_seq (ad_lineNum st) ws (ad_instructions st)"
       "ad_lineNum st' = ad_lineNum st + of_nat (length ws)"
    unfolding appended_def by blast
  from assms(2) obtain ws' where
    2: "ad_instructions st'' = emplace_seq (ad_lineNum st') ws' (ad_instructions st')"
       "ad_lineNum st'' = ad_lineNum st' + of_nat (length ws')"
    unfolding appended_def by blast
  have "ad_instructions st'' = emplace_seq (ad_lineNum st) (ws @ ws') (ad_instructions st)"
    using 1 2 by (simp add: emplace_seq_append)
  moreover have "ad_lineNum st'' = ad_lineNum st + of_nat (length (ws @ ws'))"
    using 1 2 by simp
  ultimately show ?thesis
    unfolding appended_def by blast
qed

lemma appended_emit: "appended st (ad_emit b st)"
  unfolding appended_def by (rule exI [of _ "[b]"]) (simp add: ad_emit_def)

lemma appended_DATA: "appended st (st\<lparr>ad_DATA := d\<rparr>)"
  unfolding appended_def by (rule exI [of _ "[]"]) simp

lemma appended_space: "appended st (ad_space k st)"
proof (induction k arbitrary: st)
  case 0
  show ?case by (simp add: appended_refl)
next
  case (Suc k)
  show ?case
    using appended_trans [OF appended_emit Suc] by simp
qed

lemma appended_words: "ad_words ts st = Inr st' \<Longrightarrow> appended st st'"
proof (induction ts arbitrary: st)
  case Nil
  then show ?case by (simp add: appended_refl)
next
  case (Cons t ts)
  then show ?case
    by (auto simp add: bind_eq_Inr intro: appended_trans [OF appended_emit])
qed

lemma AddData_tokens_step:
  assumes "AddData_tokens lbls dataLoc st (t # ts) = Inr st'"
  shows "\<exists>st1 ys. appended st st1 \<and> length ys \<le> length ts
                 \<and> AddData_tokens lbls dataLoc st1 ys = Inr st'"
proof -
  have "AddData_tokens lbls dataLoc (st\<lparr>ad_DATA := True\<rparr>) ts = Inr st'
      \<or> AddData_tokens lbls dataLoc st ts = Inr st'
      \<or> (\<exists>b. AddData_tokens lbls dataLoc (ad_emit b st) ts = Inr st')
      \<or> (\<exists>u us. ts = u # us \<and> AddData_tokens lbls dataLoc st us = Inr st')
      \<or> (\<exists>k u us. ts = u # us \<and> AddData_tokens lbls dataLoc (ad_space k st) us = Inr st')
      \<or> (\<exists>b u v vs. ts = u # v # vs
             \<and> AddData_tokens lbls dataLoc (ad_emit b st) vs = Inr st')
      \<or> (\<exists>k u v vs. ts = u # v # vs
             \<and> AddData_tokens lbls dataLoc (ad_space k st) vs = Inr st')"
    using assms
    apply (subst (asm) AddData_tokens.simps(2))
    apply (simp only: bind_eq_Inr split: if_splits list.splits)
    apply (auto simp del: AddData_tokens.simps)
    done
  then show ?thesis
  proof (elim disjE exE conjE)
    assume "AddData_tokens lbls dataLoc (st\<lparr>ad_DATA := True\<rparr>) ts = Inr st'"
    then show ?thesis using appended_DATA by blast
  next
    assume "AddData_tokens lbls dataLoc st ts = Inr st'"
    then show ?thesis using appended_refl by blast
  next
    fix b assume "AddData_tokens lbls dataLoc (ad_emit b st) ts = Inr st'"
    then show ?thesis using appended_emit by blast
  next
    fix u us assume "ts = u # us" "AddData_tokens lbls dataLoc st us = Inr st'"
    then show ?thesis using appended_refl [of st] by (intro exI [of _ st] exI [of _ us]) simp
  next
    fix k u us
    assume "ts = u # us" "AddData_tokens lbls dataLoc (ad_space k st) us = Inr st'"
    then show ?thesis
      using appended_space [of st k] by (intro exI [of _ "ad_space k st"] exI [of _ us]) simp
  next
    fix b u v vs
    assume "ts = u # v # vs" "AddData_tokens lbls dataLoc (ad_emit b st) vs = Inr st'"
    then show ?thesis
      using appended_emit [of st b] by (intro exI [of _ "ad_emit b st"] exI [of _ vs]) simp
  next
    fix k u v vs
    assume "ts = u # v # vs" "AddData_tokens lbls dataLoc (ad_space k st) vs = Inr st'"
    then show ?thesis
      using appended_space [of st k] by (intro exI [of _ "ad_space k st"] exI [of _ vs]) simp
  qed
qed

lemma appended_tokens:
  "AddData_tokens lbls dataLoc st ts = Inr st' \<Longrightarrow> appended st st'"
proof (induction ts arbitrary: st rule: length_induct)
  case (1 ts)
  show ?case
  proof (cases ts)
    case Nil
    with "1.prems" show ?thesis by (simp add: appended_refl)
  next
    case (Cons t rest)
    with "1.prems" obtain st1 ys where
      a: "appended st st1" and l: "length ys \<le> length rest"
      and r: "AddData_tokens lbls dataLoc st1 ys = Inr st'"
      using AddData_tokens_step by blast
    have "length ys < length ts"
      using l Cons by simp
    then have "appended st1 st'"
      using "1.IH" r by blast
    with a show ?thesis
      by (rule appended_trans)
  qed
qed

lemma appended_loop:
  "AddData_loop lbls dataLoc st src = Inr st' \<Longrightarrow> appended st st'"
proof (induction src arbitrary: st)
  case Nil
  then show ?case by (simp add: appended_refl)
next
  case (Cons s src)
  then obtain st1 where "AddData_tokens lbls dataLoc st (tokenizer s '': ,'') = Inr st1"
    and "AddData_loop lbls dataLoc st1 src = Inr st'"
    by (auto simp add: bind_eq_Inr)
  then show ?case
    using appended_tokens Cons.IH appended_trans by blast
qed








section \<open>The layout of the data segment\<close>

lemma add4_eq: "add4 k d = d + 4 * of_nat k"
  by (induction k arbitrary: d) (simp_all add: algebra_simps)

lemma data_line_word:
  assumes "DATA st" "isLabel s (labels st)" "tokenizer s '': ,'' = L # ''.word'' # vals"
    and "L \<noteq> ''.text''"
  shows "ParseLabels_line i st s
           = Inr (st\<lparr>labels := emplace_label L (dataLn st + distData st) (labels st),
                      distData := distData st + 4 * of_nat (length vals)\<rparr>)"
  using assms by (simp add: ParseLabels_line_def add4_eq)

lemma data_line_space:
  assumes "DATA st" "isLabel s (labels st)" "tokenizer s '': ,'' = L # ''.space'' # n # rest"
    and "L \<noteq> ''.text''" and "stoi n = Inr c"
  shows "ParseLabels_line i st s
           = Inr (st\<lparr>labels := emplace_label L (dataLn st + distData st) (labels st),
                      distData := distData st + 4 * of_nat (nat (sint c))\<rparr>)"
  using assms by (simp add: ParseLabels_line_def add4_eq)

lemma isLabel_colon: "CHR '':'' \<in> set s \<Longrightarrow> isLabel s m"
  by (simp add: isLabel_def)

lemma data_two_lines:
  assumes "DATA st"
    and "CHR '':'' \<in> set sA" "tokenizer sA '': ,'' = A # ''.word'' # valsA" "A \<noteq> ''.text''"
    and "CHR '':'' \<in> set sB" "tokenizer sB '': ,'' = B # ''.word'' # valsB" "B \<noteq> ''.text''"
    and "labels st A = None" "labels st B = None" "A \<noteq> B"
  shows "\<exists>st'. ParseLabels_loop i st [sA, sB] = Inr st'
             \<and> labels st' A = Some (dataLn st + distData st)
             \<and> labels st' B = Some (dataLn st + distData st + 4 * of_nat (length valsA))"
proof -
  let ?st1 = "st\<lparr>labels := emplace_label A (dataLn st + distData st) (labels st),
                 distData := distData st + 4 * of_nat (length valsA)\<rparr>"
  let ?st2 = "?st1\<lparr>labels := emplace_label B (dataLn ?st1 + distData ?st1) (labels ?st1),
                   distData := distData ?st1 + 4 * of_nat (length valsB)\<rparr>"
  have 1: "ParseLabels_line i st sA = Inr ?st1"
    using assms(1-4) by (intro data_line_word isLabel_colon)
  have "DATA ?st1"
    using assms(1) by simp
  then have 2: "ParseLabels_line (Suc i) ?st1 sB = Inr ?st2"
    using assms(5-7) by (intro data_line_word isLabel_colon)
  have "ParseLabels_loop i st [sA, sB] = Inr ?st2"
    by (simp add: 1 2)
  moreover have "labels ?st2 A = Some (dataLn st + distData st)"
    using assms(8-10) by (simp add: emplace_label_def)
  moreover have "labels ?st2 B = Some (dataLn st + distData st + 4 * of_nat (length valsA))"
    using assms(8-10) by (simp add: emplace_label_def add.assoc)
  ultimately show ?thesis by blast
qed

lemma not_isLabel_directive:
  "\<not> isLabel v lbls \<Longrightarrow>
     v \<noteq> ''.data'' \<and> v \<noteq> ''.text'' \<and> v \<noteq> ''.word'' \<and> v \<noteq> ''.space''"
  by (auto simp add: isLabel_def)

lemma AddData_values:
  assumes "ad_DATA st" "list_all (\<lambda>v. \<not> isLabel v lbls) vals" "map stoi vals = map Inr cs"
  shows "AddData_tokens lbls dataLoc st vals
           = Inr (foldl (\<lambda>s c. ad_emit (bitset_of_int c) s) st cs)"
  using assms
proof (induction vals arbitrary: st cs)
  case Nil
  then show ?case by simp
next
  case (Cons v vals)
  from Cons.prems(3) obtain c cs' where cs: "cs = c # cs'" "stoi v = Inr c"
    "map stoi vals = map Inr cs'"
    by (cases cs) auto
  have d: "ad_DATA (ad_emit (bitset_of_int c) st)"
    using Cons.prems(1) by (simp add: ad_emit_def)
  have v: "\<not> isLabel v lbls" "list_all (\<lambda>v. \<not> isLabel v lbls) vals"
    using Cons.prems(2) by simp_all
  have "AddData_tokens lbls dataLoc st (v # vals)
      = AddData_tokens lbls dataLoc (ad_emit (bitset_of_int c) st) vals"
    using v(1) not_isLabel_directive [OF v(1)] Cons.prems(1) cs(2) by simp
  then show ?case
    using Cons.IH [OF d v(2) cs(3)] cs(1) by simp
qed

lemma AddData_word_line:
  assumes "lbls L = Some a" "dataLoc \<le> a" "L \<noteq> ''.data''" "L \<noteq> ''.text''" "ad_DATA st"
    and "list_all (\<lambda>v. \<not> isLabel v lbls) (v # vals)" "map stoi (v # vals) = map Inr cs"
  shows "AddData_tokens lbls dataLoc st (L # ''.word'' # v # vals)
           = Inr (foldl (\<lambda>s c. ad_emit (bitset_of_int c) s) st cs)"
proof -
  from assms(7) obtain c cs' where cs: "cs = c # cs'" "stoi v = Inr c"
    "map stoi vals = map Inr cs'"
    by (cases cs) auto
  have l: "isLabel L lbls"
    using assms(1) by (simp add: isLabel_def)
  have d: "ad_DATA (ad_emit (bitset_of_int c) st)"
    using assms(5) by (simp add: ad_emit_def)
  have "AddData_tokens lbls dataLoc st (L # ''.word'' # v # vals)
      = AddData_tokens lbls dataLoc (ad_emit (bitset_of_int c) st) vals"
    using assms(1-4) l cs(2) by (simp add: find_second_def)
  then show ?thesis
    using AddData_values [OF d _ cs(3), of lbls dataLoc] assms(6) cs(1) by simp
qed

lemma foldl_emit:
  "ad_instructions (foldl (\<lambda>s c. ad_emit (f c) s) st cs)
     = emplace_seq (ad_lineNum st) (map f cs) (ad_instructions st)
   \<and> ad_lineNum (foldl (\<lambda>s c. ad_emit (f c) s) st cs) = ad_lineNum st + of_nat (length cs)
   \<and> ad_DATA (foldl (\<lambda>s c. ad_emit (f c) s) st cs) = ad_DATA st"
  by (induction cs arbitrary: st) (simp_all add: ad_emit_def add.assoc add.commute)

lemma AddData_two_lines:
  assumes "tokenizer sA '': ,'' = A # ''.word'' # vA # valsA"
    and "tokenizer sB '': ,'' = B # ''.word'' # vB # valsB"
    and "A \<noteq> ''.text''" "A \<noteq> ''.data''" "B \<noteq> ''.text''" "B \<noteq> ''.data''"
    and "lbls A = Some a" "lbls B = Some b" "dataLoc \<le> a" "dataLoc \<le> b" "ad_DATA ad"
    and "list_all (\<lambda>v. \<not> isLabel v lbls) (vA # valsA)"
    and "list_all (\<lambda>v. \<not> isLabel v lbls) (vB # valsB)"
    and "map stoi (vA # valsA) = map Inr csA" "map stoi (vB # valsB) = map Inr csB"
  shows "\<exists>ad'. AddData_loop lbls dataLoc ad [sA, sB] = Inr ad'
             \<and> ad_instructions ad'
                 = emplace_seq (ad_lineNum ad) (map bitset_of_int (csA @ csB))
                     (ad_instructions ad)"
proof -
  let ?emit = "\<lambda>s c. ad_emit (bitset_of_int c) s"
  let ?ad1 = "foldl ?emit ad csA"
  have 1: "AddData_tokens lbls dataLoc ad (tokenizer sA '': ,'') = Inr ?ad1"
    unfolding assms(1) using assms(7,9,4,3,11,12,14) by (rule AddData_word_line)
  have d: "ad_DATA ?ad1"
    using foldl_emit [of bitset_of_int ad csA] assms(11) by simp
  have 2: "AddData_tokens lbls dataLoc ?ad1 (tokenizer sB '': ,'') = Inr (foldl ?emit ?ad1 csB)"
    unfolding assms(2) using assms(8,10,6,5) d assms(13,15) by (rule AddData_word_line)
  have 3: "AddData_loop lbls dataLoc ad [sA, sB] = Inr (foldl ?emit ad (csA @ csB))"
    by (simp add: 1 2)
  show ?thesis
    using 3 foldl_emit [of bitset_of_int ad "csA @ csB"] by simp
qed

text \<open>
  C3, as the code has it. Inside the data segment, a label line \<open>L: .word v1,...,vk\<close>
  binds \<open>L\<close> (when it is not bound yet) to the address of \<open>.data\<close> plus the data offset
  and advances the offset by \<open>4 * k\<close>; \<open>L: .space n\<close> advances it by \<open>4 * n\<close> (by nothing
  for a negative \<open>n\<close>). So for \<open>A: .word ...\<close> with \<open>k\<close> values followed by \<open>B: .word ...\<close>
  the address of \<open>B\<close> is the address of \<open>A\<close> plus \<open>4 * k\<close>, and \<open>AddData\<close> stores the
  values of both lines, in order, at consecutive addresses from its address counter on.
\<close>

theorem data_segment_layout:
  assumes "tokenizer sA '': ,'' = A # ''.word'' # vA # valsA"
    and "tokenizer sB '': ,'' = B # ''.word'' # vB # valsB"
    and "CHR '':'' \<in> set sA" "CHR '':'' \<in> set sB"
    and "A \<noteq> B" "A \<noteq> ''.text''" "A \<noteq> ''.data''" "B \<noteq> ''.text''" "B \<noteq> ''.data''"
    and "DATA st" "labels st A = None" "labels st B = None"
    and "lbls A = Some a" "lbls B = Some b" "dataLoc \<le> a" "dataLoc \<le> b" "ad_DATA ad"
    and "list_all (\<lambda>v. \<not> isLabel v lbls) (vA # valsA)"
    and "list_all (\<lambda>v. \<not> isLabel v lbls) (vB # valsB)"
    and "map stoi (vA # valsA) = map Inr csA" "map stoi (vB # valsB) = map Inr csB"
  shows "ParseLabels_line i st sA
           = Inr (st\<lparr>labels := emplace_label A (dataLn st + distData st) (labels st),
                      distData := distData st + 4 * of_nat (length (vA # valsA))\<rparr>)
         \<and> (\<forall>s L n rest c.
               isLabel s (labels st) \<and> tokenizer s '': ,'' = L # ''.space'' # n # rest
               \<and> L \<noteq> ''.text'' \<and> stoi n = Inr c \<longrightarrow>
               ParseLabels_line i st s
                 = Inr (st\<lparr>labels := emplace_label L (dataLn st + distData st) (labels st),
                            distData := distData st + 4 * of_nat (nat (sint c))\<rparr>))
         \<and> (\<exists>st'. ParseLabels_loop i st [sA, sB] = Inr st'
                 \<and> labels st' A = Some (dataLn st + distData st)
                 \<and> labels st' B
                     = Some (dataLn st + distData st + 4 * of_nat (length (vA # valsA))))
         \<and> (\<exists>ad'. AddData_loop lbls dataLoc ad [sA, sB] = Inr ad'
                 \<and> ad_instructions ad'
                     = emplace_seq (ad_lineNum ad) (map bitset_of_int (csA @ csB))
                         (ad_instructions ad))"
proof (intro conjI)
  show "ParseLabels_line i st sA
           = Inr (st\<lparr>labels := emplace_label A (dataLn st + distData st) (labels st),
                      distData := distData st + 4 * of_nat (length (vA # valsA))\<rparr>)"
    using assms(10) isLabel_colon [OF assms(3)] assms(1,6) by (rule data_line_word)
next
  show "\<forall>s L n rest c.
               isLabel s (labels st) \<and> tokenizer s '': ,'' = L # ''.space'' # n # rest
               \<and> L \<noteq> ''.text'' \<and> stoi n = Inr c \<longrightarrow>
               ParseLabels_line i st s
                 = Inr (st\<lparr>labels := emplace_label L (dataLn st + distData st) (labels st),
                            distData := distData st + 4 * of_nat (nat (sint c))\<rparr>)"
    using data_line_space [OF assms(10)] by blast
next
  show "\<exists>st'. ParseLabels_loop i st [sA, sB] = Inr st'
                 \<and> labels st' A = Some (dataLn st + distData st)
                 \<and> labels st' B
                     = Some (dataLn st + distData st + 4 * of_nat (length (vA # valsA)))"
    using assms(10,3,1,6,4,2,8,11,12,5) by (rule data_two_lines)
next
  show "\<exists>ad'. AddData_loop lbls dataLoc ad [sA, sB] = Inr ad'
                 \<and> ad_instructions ad'
                     = emplace_seq (ad_lineNum ad) (map bitset_of_int (csA @ csB))
                         (ad_instructions ad)"
    using assms(1,2,6,7,8,9,13-21) by (rule AddData_two_lines)
qed

theorem data_segment_layout_witness:
  "tokenizer ''A: .word 1,2,3'' '': ,'' = [''A'', ''.word'', ''1'', ''2'', ''3'']
   \<and> tokenizer ''B: .word 4'' '': ,'' = [''B'', ''.word'', ''4'']
   \<and> map stoi [''1'', ''2'', ''3''] = map Inr [1, 2, 3] \<and> map stoi [''4''] = map Inr [4]
   \<and> (\<exists>st'. ParseLabels_loop 3
                \<lparr>labels = Map.empty(''.data'' \<mapsto> 1), numLabels = 1, dataLn = 1, DATA = True,
                   distData = 0\<rparr>
                [''A: .word 1,2,3'', ''B: .word 4''] = Inr st'
              \<and> labels st' ''A'' = Some 1 \<and> labels st' ''B'' = Some 13)
   \<and> (\<exists>ad'. AddData_loop (Map.empty(''.data'' \<mapsto> 1, ''A'' \<mapsto> 1, ''B'' \<mapsto> 13)) 1
                \<lparr>ad_instructions = [(0, 0xC)], ad_lineNum = 2, ad_DATA = True\<rparr>
                [''A: .word 1,2,3'', ''B: .word 4''] = Inr ad'
              \<and> ad_instructions ad' = [(0, 0xC), (2, 1), (3, 2), (4, 3), (5, 4)])"
proof -
  let ?st = "\<lparr>labels = Map.empty(''.data'' \<mapsto> (1 :: size_t)), numLabels = 1, dataLn = 1,
               DATA = True, distData = 0\<rparr>"
  let ?lbls = "Map.empty(''.data'' \<mapsto> (1 :: size_t), ''A'' \<mapsto> 1, ''B'' \<mapsto> 13)"
  let ?ad = "\<lparr>ad_instructions = [(0, 0xC)], ad_lineNum = 2, ad_DATA = True\<rparr>"
  have t1: "tokenizer ''A: .word 1,2,3'' '': ,'' = ''A'' # ''.word'' # ''1'' # [''2'', ''3'']"
    and t2: "tokenizer ''B: .word 4'' '': ,'' = ''B'' # ''.word'' # ''4'' # []"
    by (simp_all add: tokenizer_def)
  have c1: "CHR '':'' \<in> set ''A: .word 1,2,3''" and c2: "CHR '':'' \<in> set ''B: .word 4''"
    by simp_all
  have n: "''A'' \<noteq> ''B''" "''A'' \<noteq> ''.text''" "''A'' \<noteq> ''.data''"
    "''B'' \<noteq> ''.text''" "''B'' \<noteq> ''.data''"
    by simp_all
  have p: "DATA ?st" "labels ?st ''A'' = None" "labels ?st ''B'' = None"
    by simp_all
  have l: "?lbls ''A'' = Some 1" "?lbls ''B'' = Some 13" "(1 :: size_t) \<le> 1" "(1 :: size_t) \<le> 13"
    "ad_DATA ?ad"
    by simp_all
  have v: "list_all (\<lambda>v. \<not> isLabel v ?lbls) (''1'' # [''2'', ''3''])"
    "list_all (\<lambda>v. \<not> isLabel v ?lbls) (''4'' # [])"
    by (simp_all add: isLabel_def)
  have s: "map stoi (''1'' # [''2'', ''3'']) = map Inr [1, 2, 3]"
    "map stoi (''4'' # []) = map Inr [4]"
    by (simp_all add: stoi_def stoi_val_def leading_digits_def negative_def skip_sign_def
        isspace_def isdigit_def dec_val_def digit_val_def)
  note th = data_segment_layout [OF t1 t2 c1 c2 n p l v s, of 3]
  have b: "map bitset_of_int ([1, 2, 3] @ [4] :: cint list) = ([1, 2, 3, 4] :: 32 word list)"
    by (simp add: bitset_of_int_def bitset_of_size_t_def)
  from th [THEN conjunct2, THEN conjunct2, THEN conjunct1]
  have "\<exists>st'. ParseLabels_loop 3 ?st [''A: .word 1,2,3'', ''B: .word 4''] = Inr st'
                 \<and> labels st' ''A'' = Some 1 \<and> labels st' ''B'' = Some 13"
    by (simp del: ParseLabels_loop.simps)
  moreover from th [THEN conjunct2, THEN conjunct2, THEN conjunct2] have "\<exists>ad'. AddData_loop ?lbls 1 ?ad [''A: .word 1,2,3'', ''B: .word 4''] = Inr ad'
                     \<and> ad_instructions ad' = [(0, 0xC), (2, 1), (3, 2), (4, 3), (5, 4)]"
    unfolding b by (simp del: AddData_loop.simps)
  ultimately show ?thesis
    using t1 t2 s by (simp del: ParseLabels_loop.simps AddData_loop.simps)
qed

text \<open>
  For \<open>A: .word 1,2,3\<close> followed by \<open>B: .word 4\<close> pass 1 binds \<open>A\<close> to 1 and \<open>B\<close> to 13:
  the difference is 12, the offset counts four per word.
\<close>

theorem data_label_counterexample:
  "\<exists>lbls. ParseLabels [''.text'', ''syscall'', ''.data'', ''A: .word 1,2,3'', ''B: .word 4'']
            Map.empty = Inr lbls
          \<and> lbls ''.data'' = Some 1 \<and> lbls ''A'' = Some 1 \<and> lbls ''B'' = Some 13"
  by (simp add: labels_eval)

section \<open>What one line of pass 2 does to the state\<close>

lemma isLabel_marked: "isLabel s m \<longleftrightarrow> marked s \<or> m s \<noteq> None"
  by (auto simp add: isLabel_def marked_def)

lemma emit_effect:
  assumes "emit st bin = Inr st'"
  shows "\<exists>w. st' = st\<lparr>instructions := emplace (lineNum st) w (instructions st),
                       lineNum := lineNum st + 1\<rparr>"
  using assms by (auto simp add: emit_def bind_eq_Inr)

lemma ParseInstructions_line_effect:
  assumes "ParseInstructions_line lbls st s = Inr st'"
  shows "st' = st
         \<or> st' = bad_instruction st
         \<or> (\<exists>w. st' = st\<lparr>instructions := emplace (lineNum st) w (instructions st),
                          lineNum := lineNum st + 1\<rparr>)"
proof -
  have "st' = st \<or> st' = bad_instruction st \<or> (\<exists>bin. emit st bin = Inr st')"
    using assms
    by (auto simp add: ParseInstructions_line_def enc_defs bind_eq_Inr Let_def
        split: if_splits)
  then show ?thesis
    using emit_effect by blast
qed

lemma ParseInstructions_line_ordered:
  assumes "ParseInstructions_line lbls st s = Inr st'" "ordered_map (instructions st)"
  shows "ordered_map (instructions st')"
  using ParseInstructions_line_effect [OF assms(1)] assms(2)
  by (auto simp add: bad_instruction_def emplace_ordered)

lemma ParseInstructions_loop_ordered:
  "ParseInstructions_loop lbls st src = Inr st' \<Longrightarrow> ordered_map (instructions st) \<Longrightarrow>
     ordered_map (instructions st')"
proof (induction src arbitrary: st)
  case Nil
  then show ?case by simp
next
  case (Cons s src)
  then show ?case
    by (auto simp add: bind_eq_Inr dest: ParseInstructions_line_ordered)
qed

lemma ParseInstructions_line_lineNum:
  assumes "ParseInstructions_line lbls st s = Inr st'"
    and "\<not> isLabel s lbls" "tokenizer s '', ()'' \<noteq> []"
  shows "lineNum st' = lineNum st + 1"
proof -
  have "st' = bad_instruction st \<or> (\<exists>bin. emit st bin = Inr st')"
    using assms
    by (auto simp add: ParseInstructions_line_def enc_defs bind_eq_Inr Let_def
        split: if_splits)
  then show ?thesis
  proof (elim disjE exE)
    assume "st' = bad_instruction st"
    then show ?thesis by (simp add: bad_instruction_def)
  next
    fix bin
    assume "emit st bin = Inr st'"
    from emit_effect [OF this] show ?thesis by auto
  qed
qed

lemma ParseInstructions_loop_lineNum:
  assumes "ParseInstructions_loop lbls st pre = Inr st'"
    and "\<forall>x\<in>set pre. marked x \<or> lbls x = None \<and> tokenizer x '', ()'' \<noteq> []"
  shows "lineNum st' = lineNum st + of_nat (length (filter (\<lambda>x. \<not> marked x) pre))"
  using assms
proof (induction pre arbitrary: st)
  case Nil
  then show ?case by simp
next
  case (Cons x pre)
  from Cons.prems(1) obtain st1 where
    1: "ParseInstructions_line lbls st x = Inr st1"
    and 2: "ParseInstructions_loop lbls st1 pre = Inr st'"
    by (auto simp add: bind_eq_Inr)
  have IH: "lineNum st' = lineNum st1 + of_nat (length (filter (\<lambda>x. \<not> marked x) pre))"
    using Cons.IH [OF 2] Cons.prems(2) by simp
  show ?case
  proof (cases "marked x")
    case True
    then have "ParseInstructions_line lbls st x = Inr st"
      by (simp add: ParseInstructions_line_def isLabel_marked)
    with 1 IH True show ?thesis by simp
  next
    case False
    then have "\<not> isLabel x lbls" "tokenizer x '', ()'' \<noteq> []"
      using Cons.prems(2) by (simp_all add: isLabel_marked)
    from ParseInstructions_line_lineNum [OF 1 this] IH False show ?thesis
      by (simp add: add.assoc)
  qed
qed

section \<open>Labels outside the data segment\<close>

lemma ParseLabels_loop_append:
  "ParseLabels_loop i st (xs @ ys)
     = bind (ParseLabels_loop i st xs) (\<lambda>st'. ParseLabels_loop (i + length xs) st' ys)"
proof (induction xs arbitrary: i st)
  case Nil
  show ?case by simp
next
  case (Cons x xs)
  show ?case
    by (cases "ParseLabels_line i st x") (simp_all add: Cons)
qed

lemma emplace_label_keeps: "m k = Some v \<Longrightarrow> emplace_label t a m k = Some v"
  by (auto simp add: emplace_label_def split: option.splits)

lemma ParseLabels_line_keeps:
  assumes "ParseLabels_line i st s = Inr st'" "labels st k = Some v"
  shows "labels st' k = Some v"
  using assms
  by (auto simp add: ParseLabels_line_def Let_def bind_eq_Inr emplace_label_keeps
      split: if_splits list.splits)

lemma ParseLabels_loop_keeps:
  "ParseLabels_loop i st xs = Inr st' \<Longrightarrow> labels st k = Some v \<Longrightarrow> labels st' k = Some v"
proof (induction xs arbitrary: i st)
  case Nil
  then show ?case by simp
next
  case (Cons x xs)
  then show ?case
    by (auto simp add: bind_eq_Inr dest: ParseLabels_line_keeps)
qed

lemma text_line_step:
  assumes "text_line x" "tokenizer x '': ,'' \<noteq> []"
  shows "ParseLabels_line i st x = Inr st"
  using assms
  by (auto simp add: ParseLabels_line_def text_line_def first_tok_def isLabel_marked
      split: list.splits)

lemma label_line_step:
  assumes "label_line x" "tokenizer x '': ,'' \<noteq> []" "first_tok x \<noteq> ''.data''" "\<not> DATA st"
  shows "ParseLabels_line i st x
           = Inr (st\<lparr>labels := emplace_label (first_tok x) (of_nat i - numLabels st - 1) (labels st),
                      numLabels := numLabels st + 1\<rparr>)"
  using assms
  by (auto simp add: ParseLabels_line_def label_line_def first_tok_def isLabel_marked Let_def
      split: list.splits)

lemma plain_line_step:
  assumes "\<not> marked x" "labels st x = None"
  shows "ParseLabels_line i st x = Inr st"
  using assms by (simp add: ParseLabels_line_def isLabel_marked)

lemma label_line_binds:
  assumes "label_line x" "tokenizer x '': ,'' \<noteq> []" "\<not> DATA st"
  shows "\<exists>st'. ParseLabels_line i st x = Inr st'
             \<and> labels st'
                 = emplace_label (first_tok x) (of_nat i - numLabels st - 1) (labels st)"
  using assms
  by (auto simp add: ParseLabels_line_def label_line_def first_tok_def isLabel_marked Let_def
      split: list.splits)

lemma pass1_prefix:
  assumes "\<forall>x\<in>set xs. marked x \<longrightarrow> tokenizer x '': ,'' \<noteq> [] \<and> first_tok x \<noteq> ''.data''"
    and "\<forall>y\<in>set xs. \<not> marked y \<longrightarrow>
           labels st y = None \<and> (\<forall>x\<in>set xs. marked x \<longrightarrow> first_tok x \<noteq> y)"
    and "\<not> DATA st"
  shows "\<exists>st'. ParseLabels_loop i st xs = Inr st' \<and> \<not> DATA st'
             \<and> numLabels st' = numLabels st + of_nat (length (filter label_line xs))
             \<and> (\<forall>k. labels st' k \<noteq> None \<longrightarrow>
                    labels st k \<noteq> None \<or> (\<exists>x\<in>set xs. label_line x \<and> first_tok x = k))"
  using assms
proof (induction xs arbitrary: i st)
  case Nil
  then show ?case by simp
next
  case (Cons x xs)
  have tail1: "\<forall>x\<in>set xs. marked x \<longrightarrow> tokenizer x '': ,'' \<noteq> [] \<and> first_tok x \<noteq> ''.data''"
    using Cons.prems(1) by simp
  have tail2: "\<forall>y\<in>set xs. \<not> marked y \<longrightarrow> (\<forall>x\<in>set xs. marked x \<longrightarrow> first_tok x \<noteq> y)"
    using Cons.prems(2) by simp
  have unbound: "\<forall>y\<in>set xs. \<not> marked y \<longrightarrow> labels st y = None"
    using Cons.prems(2) by simp
  consider (unmarked) "\<not> marked x" | (is_text) "text_line x" | (is_label) "label_line x"
    by (auto simp add: text_line_def label_line_def)
  then show ?case
  proof cases
    case unmarked
    with Cons.prems(2) have "labels st x = None"
      by simp
    then have step: "ParseLabels_line i st x = Inr st"
      using unmarked by (rule plain_line_step [rotated])
    have "\<forall>y\<in>set xs. \<not> marked y \<longrightarrow>
           labels st y = None \<and> (\<forall>x\<in>set xs. marked x \<longrightarrow> first_tok x \<noteq> y)"
      using tail2 unbound by blast
    from Cons.IH [OF tail1 this Cons.prems(3), of "Suc i"] obtain st' where
      "ParseLabels_loop (Suc i) st xs = Inr st'" "\<not> DATA st'"
      "numLabels st' = numLabels st + of_nat (length (filter label_line xs))"
      "\<forall>k. labels st' k \<noteq> None \<longrightarrow>
            labels st k \<noteq> None \<or> (\<exists>x\<in>set xs. label_line x \<and> first_tok x = k)"
      by blast
    moreover have "\<not> label_line x"
      using unmarked by (simp add: label_line_def)
    ultimately show ?thesis
      using step by (intro exI [of _ st']) auto
  next
    case is_text
    have "tokenizer x '': ,'' \<noteq> []"
      using Cons.prems(1) is_text by (simp add: text_line_def)
    with is_text have step: "ParseLabels_line i st x = Inr st"
      by (rule text_line_step)
    have "\<forall>y\<in>set xs. \<not> marked y \<longrightarrow>
           labels st y = None \<and> (\<forall>x\<in>set xs. marked x \<longrightarrow> first_tok x \<noteq> y)"
      using tail2 unbound by blast
    from Cons.IH [OF tail1 this Cons.prems(3), of "Suc i"] obtain st' where
      "ParseLabels_loop (Suc i) st xs = Inr st'" "\<not> DATA st'"
      "numLabels st' = numLabels st + of_nat (length (filter label_line xs))"
      "\<forall>k. labels st' k \<noteq> None \<longrightarrow>
            labels st k \<noteq> None \<or> (\<exists>x\<in>set xs. label_line x \<and> first_tok x = k)"
      by blast
    moreover have "\<not> label_line x"
      using is_text by (simp add: label_line_def text_line_def)
    ultimately show ?thesis
      using step by (intro exI [of _ st']) auto
  next
    case is_label
    let ?st1 = "st\<lparr>labels := emplace_label (first_tok x) (of_nat i - numLabels st - 1) (labels st),
                   numLabels := numLabels st + 1\<rparr>"
    have m: "marked x"
      using is_label by (simp add: label_line_def)
    then have tk: "tokenizer x '': ,'' \<noteq> []" "first_tok x \<noteq> ''.data''"
      using Cons.prems(1) by simp_all
    have step: "ParseLabels_line i st x = Inr ?st1"
      using is_label tk Cons.prems(3) by (rule label_line_step)
    have "\<forall>y\<in>set xs. \<not> marked y \<longrightarrow> first_tok x \<noteq> y"
      using Cons.prems(2) m by auto
    then have "\<forall>y\<in>set xs. \<not> marked y \<longrightarrow>
           labels ?st1 y = None \<and> (\<forall>x\<in>set xs. marked x \<longrightarrow> first_tok x \<noteq> y)"
      using tail2 unbound by (auto simp add: emplace_label_def split: option.splits)
    moreover have "\<not> DATA ?st1"
      using Cons.prems(3) by simp
    ultimately obtain st' where
      r: "ParseLabels_loop (Suc i) ?st1 xs = Inr st'" "\<not> DATA st'"
      "numLabels st' = numLabels ?st1 + of_nat (length (filter label_line xs))"
      "\<forall>k. labels st' k \<noteq> None \<longrightarrow>
            labels ?st1 k \<noteq> None \<or> (\<exists>x\<in>set xs. label_line x \<and> first_tok x = k)"
      using Cons.IH [OF tail1, of ?st1 "Suc i"] by blast
    have "\<forall>k. labels ?st1 k \<noteq> None \<longrightarrow> labels st k \<noteq> None \<or> first_tok x = k"
      by (auto simp add: emplace_label_def split: option.splits if_splits)
    with r(4) have keys: "\<forall>k. labels st' k \<noteq> None \<longrightarrow>
        labels st k \<noteq> None \<or> (\<exists>y\<in>set (x # xs). label_line y \<and> first_tok y = k)"
      using is_label by (metis list.set_intros(1) list.set_intros(2))
    show ?thesis
      using step r(1,2,3) keys is_label by (intro exI [of _ st']) (simp add: add.assoc)
  qed
qed

lemma line_kinds:
  "length xs = length (filter text_line xs) + length (filter label_line xs)
               + length (filter (\<lambda>x. \<not> marked x) xs)"
  by (induction xs) (auto simp add: text_line_def label_line_def)

text \<open>
  The value pass 1 stores. Take a marked line \<open>s\<close> at line index \<open>length pre\<close> whose first
  token \<open>t\<close> is not \<open>.text\<close>, where no line before it is a \<open>.data\<close> line, no unmarked line
  before it is spelled like the first token of a marked one, and \<open>t\<close> is not bound by an
  earlier line. The code stores (line index - number of earlier label lines other than
  \<open>.text\<close> lines) - 1 in \<open>size_t\<close>, and the rest of the pass keeps that binding. When
  exactly one \<open>.text\<close> line precedes, this is the number of unmarked lines before \<open>s\<close>,
  and it is the address counter with which pass 2 arrives at \<open>s\<close> (when it gets there,
  every unmarked line before \<open>s\<close> having a token and not being a key of the table).
\<close>

lemma text_label_binding:
  assumes "\<forall>x\<in>set pre. marked x \<longrightarrow> tokenizer x '': ,'' \<noteq> [] \<and> first_tok x \<noteq> ''.data''"
    and "\<forall>y\<in>set pre. \<not> marked y \<longrightarrow> (\<forall>x\<in>set pre. marked x \<longrightarrow> first_tok x \<noteq> y)"
    and "marked s" "tokenizer s '': ,'' = t # ts" "t \<noteq> ''.text''"
    and "\<forall>x\<in>set pre. label_line x \<longrightarrow> first_tok x \<noteq> t"
  shows "(\<exists>st'. ParseLabels_loop 0 (pl_init Map.empty) (pre @ [s]) = Inr st'
             \<and> labels st' t
                 = Some (of_nat (length pre) - of_nat (length (filter label_line pre)) - 1))
         \<and> (\<forall>rest lbls. ParseLabels (pre @ s # rest) Map.empty = Inr lbls \<longrightarrow>
               lbls t = Some (of_nat (length pre) - of_nat (length (filter label_line pre)) - 1))
         \<and> (length (filter text_line pre) = 1 \<longrightarrow>
               of_nat (length pre) - of_nat (length (filter label_line pre)) - 1
                 = (of_nat (length (filter (\<lambda>x. \<not> marked x) pre)) :: size_t))
         \<and> (\<forall>lbls st'.
               length (filter text_line pre) = 1
               \<and> (\<forall>x\<in>set pre. marked x \<or> lbls x = None \<and> tokenizer x '', ()'' \<noteq> [])
               \<and> ParseInstructions_loop lbls \<lparr>instructions = [], lineNum = 0, out = []\<rparr> pre
                   = Inr st' \<longrightarrow>
               lineNum st'
                 = of_nat (length pre) - of_nat (length (filter label_line pre)) - 1)"
proof -
  let ?v = "of_nat (length pre) - of_nat (length (filter label_line pre)) - 1 :: size_t"
  have "\<forall>y\<in>set pre. \<not> marked y \<longrightarrow>
          labels (pl_init Map.empty) y = None
          \<and> (\<forall>x\<in>set pre. marked x \<longrightarrow> first_tok x \<noteq> y)"
    using assms(2) by (simp add: pl_init_def)
  moreover have "\<not> DATA (pl_init Map.empty)"
    by (simp add: pl_init_def)
  ultimately obtain st1 where
    1: "ParseLabels_loop 0 (pl_init Map.empty) pre = Inr st1" "\<not> DATA st1"
       "numLabels st1 = numLabels (pl_init Map.empty) + of_nat (length (filter label_line pre))"
       "\<forall>k. labels st1 k \<noteq> None \<longrightarrow>
            labels (pl_init Map.empty) k \<noteq> None
            \<or> (\<exists>x\<in>set pre. label_line x \<and> first_tok x = k)"
    using pass1_prefix [OF assms(1), of "pl_init Map.empty" 0] by blast
  have n: "numLabels st1 = of_nat (length (filter label_line pre))"
    using 1(3) by (simp add: pl_init_def)
  have u: "labels st1 t = None"
    using 1(4) assms(6) by (fastforce simp add: pl_init_def)
  have ft: "first_tok s = t"
    using assms(4) by (simp add: first_tok_def)
  have "label_line s" "tokenizer s '': ,'' \<noteq> []"
    using assms(3,4,5) ft by (simp_all add: label_line_def)
  from label_line_binds [OF this 1(2), of "length pre"] obtain st2 where
    2: "ParseLabels_line (length pre) st1 s = Inr st2"
       "labels st2 = emplace_label t (of_nat (length pre) - numLabels st1 - 1) (labels st1)"
    using ft by auto
  have b: "labels st2 t = Some ?v"
    using 2(2) u n by (simp add: emplace_label_def)
  have 3: "ParseLabels_loop 0 (pl_init Map.empty) (pre @ [s]) = Inr st2"
    by (simp add: ParseLabels_loop_append 1(1) 2(1))
  have rest: "lbls t = Some ?v" if "ParseLabels (pre @ s # rest) Map.empty = Inr lbls"
    for rest lbls
  proof -
    have "ParseLabels_loop 0 (pl_init Map.empty) ((pre @ [s]) @ rest)
        = bind (ParseLabels_loop 0 (pl_init Map.empty) (pre @ [s]))
            (\<lambda>st'. ParseLabels_loop (0 + length (pre @ [s])) st' rest)"
      by (rule ParseLabels_loop_append)
    then have "ParseLabels_loop 0 (pl_init Map.empty) (pre @ s # rest)
        = ParseLabels_loop (0 + length (pre @ [s])) st2 rest"
      using 3 by simp
    then have "ParseLabels (pre @ s # rest) Map.empty
        = bind (ParseLabels_loop (0 + length (pre @ [s])) st2 rest) (\<lambda>st. Inr (labels st))"
      by (simp add: ParseLabels_def)
    with that obtain st3 where "ParseLabels_loop (0 + length (pre @ [s])) st2 rest = Inr st3"
      "lbls = labels st3"
      by (auto simp add: bind_eq_Inr)
    then show ?thesis
      using ParseLabels_loop_keeps b by blast
  qed
  have cnt: "length (filter text_line pre) = 1 \<longrightarrow>
               ?v = (of_nat (length (filter (\<lambda>x. \<not> marked x) pre)) :: size_t)"
  proof
    assume "length (filter text_line pre) = 1"
    then have "length pre = 1 + length (filter label_line pre)
                 + length (filter (\<lambda>x. \<not> marked x) pre)"
      using line_kinds [of pre] by simp
    then have "(of_nat (length pre) :: size_t)
        = 1 + of_nat (length (filter label_line pre))
          + of_nat (length (filter (\<lambda>x. \<not> marked x) pre))"
      by (metis of_nat_1 of_nat_add)
    then show "?v = (of_nat (length (filter (\<lambda>x. \<not> marked x) pre)) :: size_t)"
      by simp
  qed
  have pc: "lineNum st' = ?v"
    if "length (filter text_line pre) = 1"
      and "\<forall>x\<in>set pre. marked x \<or> lbls x = None \<and> tokenizer x '', ()'' \<noteq> []"
      and "ParseInstructions_loop lbls \<lparr>instructions = [], lineNum = 0, out = []\<rparr> pre = Inr st'"
    for lbls st'
    using ParseInstructions_loop_lineNum [OF that(3,2)] cnt that(1) by simp
  show ?thesis
    using 3 b rest cnt pc by blast
qed

lemma text_label_binding_example:
  "tokenizer ''loop:'' '': ,'' = [''loop'']
   \<and> filter label_line [''.text'', ''main:'', ''syscall''] = [''main:'']
   \<and> filter text_line [''.text'', ''main:'', ''syscall''] = [''.text'']
   \<and> filter (\<lambda>x. \<not> marked x) [''.text'', ''main:'', ''syscall''] = [''syscall'']
   \<and> (\<exists>st'. ParseLabels_loop 0 (pl_init Map.empty) [''.text'', ''main:'', ''syscall'', ''loop:'']
               = Inr st'
             \<and> labels st' ''loop'' = Some 1)"
proof -
  let ?pre = "[''.text'', ''main:'', ''syscall'']"
  have h1: "\<forall>x\<in>set ?pre. marked x \<longrightarrow> tokenizer x '': ,'' \<noteq> [] \<and> first_tok x \<noteq> ''.data''"
    by (simp add: marked_def first_tok_def tokenizer_def)
  have h2: "\<forall>y\<in>set ?pre. \<not> marked y \<longrightarrow> (\<forall>x\<in>set ?pre. marked x \<longrightarrow> first_tok x \<noteq> y)"
    by (simp add: marked_def first_tok_def tokenizer_def)
  have h3: "marked ''loop:''"
    by (simp add: marked_def)
  have h4: "tokenizer ''loop:'' '': ,'' = ''loop'' # []"
    by (simp add: tokenizer_def)
  have h5: "''loop'' \<noteq> ''.text''"
    by simp
  have h6: "\<forall>x\<in>set ?pre. label_line x \<longrightarrow> first_tok x \<noteq> ''loop''"
    by (simp add: label_line_def marked_def first_tok_def tokenizer_def)
  have f: "filter label_line ?pre = [''main:'']" "filter text_line ?pre = [''.text'']"
    "filter (\<lambda>x. \<not> marked x) ?pre = [''syscall'']"
    by (simp_all add: label_line_def text_line_def marked_def first_tok_def tokenizer_def)
  from text_label_binding [OF h1 h2 h3 h4 h5 h6, THEN conjunct1]
  have "\<exists>st'. ParseLabels_loop 0 (pl_init Map.empty) (?pre @ [''loop:'']) = Inr st'
             \<and> labels st' ''loop'' = Some 1"
    unfolding f by simp
  then show ?thesis
    using h4 f by simp
qed

lemma unmarked_count:
  "length (filter (\<lambda>x. \<not> marked x) xs) = length xs - length (filter marked xs)"
  using sum_length_filter_compl [of marked xs] by simp

text \<open>
  With exactly one \<open>.text\<close> line before it, the label gets the line index minus the
  number of marked lines (label and directive lines) before it: the address of the next
  instruction.
\<close>

lemma text_label_as_stated:
  assumes "\<forall>x\<in>set pre. marked x \<longrightarrow> tokenizer x '': ,'' \<noteq> [] \<and> first_tok x \<noteq> ''.data''"
    and "\<forall>y\<in>set pre. \<not> marked y \<longrightarrow> (\<forall>x\<in>set pre. marked x \<longrightarrow> first_tok x \<noteq> y)"
    and "marked s" "tokenizer s '': ,'' = t # ts" "t \<noteq> ''.text''"
    and "\<forall>x\<in>set pre. label_line x \<longrightarrow> first_tok x \<noteq> t"
    and "length (filter text_line pre) = 1"
  shows "\<exists>st'. ParseLabels_loop 0 (pl_init Map.empty) (pre @ [s]) = Inr st'
             \<and> labels st' t = Some (of_nat (length pre - length (filter marked pre)))"
proof -
  note th = text_label_binding [OF assms(1-6)]
  from th [THEN conjunct2, THEN conjunct2, THEN conjunct1] assms(7)
  have "of_nat (length pre) - of_nat (length (filter label_line pre)) - 1
          = (of_nat (length pre - length (filter marked pre)) :: size_t)"
    by (simp add: unmarked_count)
  with th [THEN conjunct1] show ?thesis
    by simp
qed

text \<open>
  C2. A label line names the address of the next instruction, the line index minus the
  label and directive lines before it; the comments of the source say that a label is
  stored with the line it points to and that the \<open>- 1\<close> ``ensures the correct line is
  pointed to''. The code stores \<open>(i - numLabels) - 1\<close> and does not count \<open>.text\<close> lines,
  which is right after exactly one \<open>.text\<close> line. In a program that starts with the label
  \<open>main:\<close> the label is bound to \<open>(0 - 0) - 1\<close>, which wraps around to \<open>2^64 - 1\<close>, while
  the next instruction is stored at address 0; \<open>j main\<close> is then encoded with all 26
  address bits set.
\<close>

theorem label_on_first_line:
  "\<exists>lbls. ParseLabels [''main:'', ''j main''] Map.empty = Inr lbls
         \<and> lbls ''main'' = Some 0xFFFFFFFFFFFFFFFF
         \<and> ParseInstructions_loop lbls \<lparr>instructions = [], lineNum = 0, out = []\<rparr>
              [''main:'', ''j main'']
            = Inr \<lparr>instructions = [(0, 0x0BFFFFFF)], lineNum = 1, out = []\<rparr>"
proof -
  let ?lbls = "Map.empty(''main'' \<mapsto> (- 1 :: size_t))"
  have 1: "ParseLabels [''main:'', ''j main''] Map.empty = Inr ?lbls"
    by (simp add: labels_eval)
  have u: "(ucast (- 1 :: size_t) :: 26 word) = - 1"
    by (rule bit_word_eqI) (simp add: bit_simps)
  have t: "to_string (- 1 :: 26 word) = ''11111111111111111111111111''"
    by (simp add: to_string_def upt_rec)
  have a: "GetAddress ''main'' ?lbls = Inr ''11111111111111111111111111''"
    by (simp add: GetAddress_def find_second_def bitset_of_size_t_def u t)
  have e: "emit \<lparr>instructions = [], lineNum = 0, out = []\<rparr> ''00001011111111111111111111111111''
         = Inr \<lparr>instructions = [(0, 0x0BFFFFFF)], lineNum = 1, out = []\<rparr>"
    by (simp add: emit_def bitset32_of_string_def bits_val_def)
  have 2: "ParseInstructions_loop ?lbls \<lparr>instructions = [], lineNum = 0, out = []\<rparr>
              [''main:'', ''j main'']
            = Inr \<lparr>instructions = [(0, 0x0BFFFFFF)], lineNum = 1, out = []\<rparr>"
    by (simp add: ParseInstructions_line_def isLabel_def tokenizer_def enc_jump_def
        next_tok_def a e)
  have 3: "?lbls ''main'' = Some 0xFFFFFFFFFFFFFFFF"
    by simp
  from 1 3 2 show ?thesis
    by (intro exI [of _ ?lbls] conjI)
qed

section \<open>The word map of a run\<close>

lemma emplace_seq_ordered: "ordered_map m \<Longrightarrow> ordered_map (emplace_seq a ws m)"
  by (induction ws arbitrary: a m) (simp_all add: emplace_ordered)

lemma AddData_ordered:
  assumes "AddData ins lbls src = Inr ins'" "ordered_map ins"
  shows "ordered_map ins'"
proof -
  let ?st = "\<lparr>ad_instructions = ins, ad_lineNum = of_nat (length ins) + 1, ad_DATA = False\<rparr>"
  from assms(1) obtain dataLoc st' where
    l: "AddData_loop lbls dataLoc ?st src = Inr st'" and i: "ins' = ad_instructions st'"
    by (auto simp add: AddData_def bind_eq_Inr)
  from appended_loop [OF l] obtain ws where
    "ad_instructions st' = emplace_seq (ad_lineNum ?st) ws (ad_instructions ?st)"
    unfolding appended_def by blast
  then show ?thesis
    using i assms(2) by (simp add: emplace_seq_ordered)
qed

lemma WordStream_ordered:
  assumes "WordStream src = Inr st"
  shows "ordered_map (instructions st)"
proof -
  from assms obtain lbls st1 ins where
    1: "ParseInstructions_loop lbls \<lparr>instructions = [], lineNum = 0, out = []\<rparr> src = Inr st1"
    and 2: "AddData (instructions st1) lbls src = Inr ins"
    and 3: "st = st1\<lparr>instructions := ins\<rparr>"
    by (auto simp add: WordStream_def bind_eq_Inr)
  have "ordered_map (instructions st1)"
    using ParseInstructions_loop_ordered [OF 1] by (simp add: ordered_map_def)
  then show ?thesis
    using AddData_ordered [OF 2] 3 by simp
qed

end
